theory Spec2Isabelle
  imports Main "HOL-Library.Char_ord" "HOL-Library.List_Lexorder" "HOL-Library.Multiset"
    "HOL-Library.Word"
begin

section \<open>Quota state (package quota, state.go)\<close>

text \<open>
  Go strings are byte sequences; they are modelled as \<open>string\<close> (lists of 8-bit
  characters). The comparison operators of Go on strings are the bytewise lexicographic
  order, which is the order of \<open>List_Lexorder\<close> over \<open>Char_ord\<close>.
\<close>

record AccountQuotaState =
  Status :: string
  LimitedAt :: string
  ResetsAt :: string
  LastUsed :: string

text \<open>The zero value of the struct, which Go returns when a map has no entry for a key.\<close>

definition zeroAccount :: AccountQuotaState where
  "zeroAccount = \<lparr>Status = [], LimitedAt = [], ResetsAt = [], LastUsed = []\<rparr>"

text \<open>
  Modelled from the spec: the status constants of package config, which is not part of the
  sources at hand; section 6 of the spec gives their persisted spellings.
\<close>

definition QuotaStatusAvailable :: string where
  "QuotaStatusAvailable = ''available''"

definition QuotaStatusLimited :: string where
  "QuotaStatusLimited = ''limited''"

definition QuotaStatusCooldown :: string where
  "QuotaStatusCooldown = ''cooldown''"

text \<open>
  A Go map value may be nil: \<open>None\<close> is the nil map, \<open>Some m\<close> an allocated map.
\<close>

record QuotaState =
  Version :: int
  Accounts :: "(string \<rightharpoonup> AccountQuotaState) option"

datatype error =
    LockFailure
  | ReadFailure
  | StateCorrupt
  | WriteFailure
  | NilMapPanic
  | ParseError string
  | CredentialReadFailure string
  | CredentialWriteFailure string
  | Expired int
  | Rejected

text \<open>Reading \<open>state.Accounts[handle]\<close>: the zero value for a missing key or a nil map.\<close>

definition valueAt :: "(string \<rightharpoonup> AccountQuotaState) \<Rightarrow> string \<Rightarrow> AccountQuotaState" where
  "valueAt m handle = (case m handle of None \<Rightarrow> zeroAccount | Some a \<Rightarrow> a)"

definition accountAt :: "QuotaState \<Rightarrow> string \<Rightarrow> AccountQuotaState" where
  "accountAt state handle =
     (case Accounts state of None \<Rightarrow> zeroAccount | Some m \<Rightarrow> valueAt m handle)"

text \<open>The assignment \<open>state.Accounts[handle] = v\<close>: Go panics when the map is nil.\<close>

definition assign :: "QuotaState \<Rightarrow> string \<Rightarrow> AccountQuotaState \<Rightarrow> error + QuotaState" where
  "assign state handle v =
     (case Accounts state of
        None \<Rightarrow> Inl NilMapPanic
      | Some m \<Rightarrow> Inr (state\<lparr>Accounts := Some (m(handle \<mapsto> v))\<rparr>))"

subsection \<open>The persisted file\<close>

text \<open>
  The file at \<open>statePath\<close> is described by what \<open>os.ReadFile\<close> and \<open>json.Unmarshal\<close>
  make of it: it does not exist, it cannot be read, its content is rejected by the JSON
  decoder, or its content decodes to a state (whose map is nil when the document has no
  \<open>accounts\<close> member). \<open>lockable\<close> tells whether \<open>lock\<close> succeeds, \<open>writable\<close> whether a
  write succeeds, and \<open>clock\<close> is \<open>time.Now().UTC().Format(time.RFC3339)\<close>.
\<close>

datatype persisted = NotExist | Unreadable | Malformed | Document QuotaState

record world =
  quotaFile :: persisted
  lockable :: bool
  writable :: bool
  clock :: string

text \<open>\<open>Load\<close>; \<open>cv\<close> is \<open>config.CurrentQuotaVersion\<close>.\<close>

definition Load :: "int \<Rightarrow> world \<Rightarrow> error + QuotaState" where
  "Load cv w =
     (case quotaFile w of
        NotExist \<Rightarrow> Inr \<lparr>Version = cv, Accounts = Some Map.empty\<rparr>
      | Unreadable \<Rightarrow> Inl ReadFailure
      | Malformed \<Rightarrow> Inl StateCorrupt
      | Document state \<Rightarrow>
          Inr (if Accounts state = None then state\<lparr>Accounts := Some Map.empty\<rparr> else state))"

text \<open>
  Modelled from the spec: \<open>util.EnsureDirAndWriteJSON\<close>, which is not part of the sources
  at hand. The spec describes the write as atomic: it either replaces the whole file by
  the encoding of the state or fails and leaves the file as it was.
\<close>

definition EnsureDirAndWriteJSON :: "world \<Rightarrow> QuotaState \<Rightarrow> error option \<times> world" where
  "EnsureDirAndWriteJSON w state =
     (if writable w then (None, w\<lparr>quotaFile := Document state\<rparr>) else (Some WriteFailure, w))"

definition Save :: "int \<Rightarrow> world \<Rightarrow> QuotaState \<Rightarrow> error option \<times> world" where
  "Save cv w state =
     (if \<not> lockable w then (Some LockFailure, w)
      else EnsureDirAndWriteJSON w (state\<lparr>Version := cv\<rparr>))"

definition MarkLimited :: "int \<Rightarrow> world \<Rightarrow> string \<Rightarrow> string \<Rightarrow> error option \<times> world" where
  "MarkLimited cv w handle resetsAt =
     (if \<not> lockable w then (Some LockFailure, w)
      else case Load cv w of
        Inl err \<Rightarrow> (Some err, w)
      | Inr state \<Rightarrow>
          (case assign state handle
                  \<lparr>Status = QuotaStatusLimited, LimitedAt = clock w, ResetsAt = resetsAt,
                   LastUsed = LastUsed (accountAt state handle)\<rparr> of
             Inl err \<Rightarrow> (Some err, w)
           | Inr state' \<Rightarrow> EnsureDirAndWriteJSON w state'))"

definition MarkAvailable :: "int \<Rightarrow> world \<Rightarrow> string \<Rightarrow> error option \<times> world" where
  "MarkAvailable cv w handle =
     (if \<not> lockable w then (Some LockFailure, w)
      else case Load cv w of
        Inl err \<Rightarrow> (Some err, w)
      | Inr state \<Rightarrow>
          (let existing = accountAt state handle in
           case assign state handle
                  \<lparr>Status = QuotaStatusAvailable, LimitedAt = [], ResetsAt = [],
                   LastUsed = LastUsed existing\<rparr> of
             Inl err \<Rightarrow> (Some err, w)
           | Inr state' \<Rightarrow> EnsureDirAndWriteJSON w state'))"

subsection \<open>Ranging over the map\<close>

text \<open>
  \<open>for handle, acctState := range state.Accounts\<close> visits every key once, in an order Go
  leaves unspecified. The loops below take the order of the visit as a list \<open>ks\<close>;
  \<open>rangeOrder state ks\<close> says that \<open>ks\<close> is one of the orders the runtime may choose.
\<close>

definition keysOf :: "QuotaState \<Rightarrow> string set" where
  "keysOf state = (case Accounts state of None \<Rightarrow> {} | Some m \<Rightarrow> dom m)"

definition rangeOrder :: "QuotaState \<Rightarrow> string list \<Rightarrow> bool" where
  "rangeOrder state ks = (distinct ks \<and> set ks = keysOf state)"

subsection \<open>AvailableAccounts and sortByLastUsed\<close>

fun collectAvailable :: "QuotaState \<Rightarrow> string list \<Rightarrow> string list \<Rightarrow> string list" where
  "collectAvailable state [] available = available"
| "collectAvailable state (handle # rest) available =
     (let acctState = accountAt state handle in
      if Status acctState = QuotaStatusAvailable \<or> Status acctState = []
      then collectAvailable state rest (available @ [handle])
      else collectAvailable state rest available)"

text \<open>
  The inner loop of the insertion sort, from index \<open>j\<close> downwards:
  \<open>for j >= 0 && LastUsed(handles[j]) > LastUsed(key) { handles[j+1] = handles[j]; j-- }\<close>.
  It returns the slice and the final \<open>j\<close>.
\<close>

function shiftRight :: "QuotaState \<Rightarrow> string list \<Rightarrow> string \<Rightarrow> int \<Rightarrow> string list \<times> int" where
  "shiftRight state handles key j =
     (if 0 \<le> j \<and> LastUsed (accountAt state (handles ! nat j)) > LastUsed (accountAt state key)
      then shiftRight state (handles[nat (j + 1) := handles ! nat j]) key (j - 1)
      else (handles, j))"
  by pat_completeness auto
termination
  by (relation "measure (\<lambda>(state, handles, key, j). nat (j + 1))") auto

declare shiftRight.simps [simp del]

lemma length_shiftRight: "length (fst (shiftRight state handles key j)) = length handles"
proof (induction state handles key j rule: shiftRight.induct)
  case (1 state handles key j)
  show ?case
  proof (cases "0 \<le> j \<and> LastUsed (accountAt state (handles ! nat j)) > LastUsed (accountAt state key)")
    case True
    then show ?thesis using "1.IH" by (subst shiftRight.simps) simp
  next
    case False
    then show ?thesis by (subst shiftRight.simps) auto
  qed
qed

text \<open>The outer loop \<open>for i := 1; i < len(handles); i++\<close>, from index \<open>i\<close>.\<close>

function sortFrom :: "QuotaState \<Rightarrow> string list \<Rightarrow> nat \<Rightarrow> string list" where
  "sortFrom state handles i =
     (if i < length handles
      then (let key = handles ! i;
                r = shiftRight state handles key (int i - 1)
            in sortFrom state ((fst r)[nat (snd r + 1) := key]) (i + 1))
      else handles)"
  by pat_completeness auto
termination
  by (relation "measure (\<lambda>(state, handles, i). length handles - i)")
     (auto simp: length_shiftRight)

declare sortFrom.simps [simp del]

definition sortByLastUsed :: "string list \<Rightarrow> QuotaState \<Rightarrow> string list" where
  "sortByLastUsed handles state = sortFrom state handles 1"

definition AvailableAccounts :: "string list \<Rightarrow> QuotaState \<Rightarrow> string list" where
  "AvailableAccounts ks state = sortByLastUsed (collectAvailable state ks []) state"

section \<open>The reset-time grammar (ParseResetTime)\<close>

subsection \<open>strings.TrimSpace, strings.Index, strings.ToLower\<close>

text \<open>
  \<open>strings.TrimSpace\<close> removes the leading and the trailing white space of a string as
  Unicode defines it (\<open>unicode.IsSpace\<close>): the six ASCII characters tab, line feed,
  vertical tab, form feed, carriage return and space, and the runes U+0085, U+00A0,
  U+1680, U+2000 to U+200A, U+2028, U+2029, U+202F, U+205F and U+3000, which are the two
  and three byte sequences below in UTF-8. A byte that does not decode to one of these
  runes ends the trimming.
\<close>

definition asciiSpace :: "char list" where
  "asciiSpace = [CHR 0x09, CHR 0x0A, CHR 0x0B, CHR 0x0C, CHR 0x0D, CHR 0x20]"

definition spaceRunes2 :: "string list" where
  "spaceRunes2 = [[CHR 0xC2, CHR 0x85], [CHR 0xC2, CHR 0xA0]]"

definition spaceRunes3 :: "string list" where
  "spaceRunes3 =
     [[CHR 0xE1, CHR 0x9A, CHR 0x80],
      [CHR 0xE2, CHR 0x80, CHR 0x80], [CHR 0xE2, CHR 0x80, CHR 0x81],
      [CHR 0xE2, CHR 0x80, CHR 0x82], [CHR 0xE2, CHR 0x80, CHR 0x83],
      [CHR 0xE2, CHR 0x80, CHR 0x84], [CHR 0xE2, CHR 0x80, CHR 0x85],
      [CHR 0xE2, CHR 0x80, CHR 0x86], [CHR 0xE2, CHR 0x80, CHR 0x87],
      [CHR 0xE2, CHR 0x80, CHR 0x88], [CHR 0xE2, CHR 0x80, CHR 0x89],
      [CHR 0xE2, CHR 0x80, CHR 0x8A],
      [CHR 0xE2, CHR 0x80, CHR 0xA8], [CHR 0xE2, CHR 0x80, CHR 0xA9],
      [CHR 0xE2, CHR 0x80, CHR 0xAF], [CHR 0xE2, CHR 0x81, CHR 0x9F],
      [CHR 0xE3, CHR 0x80, CHR 0x80]]"

fun TrimLeftSpace :: "string \<Rightarrow> string" where
  "TrimLeftSpace [] = []"
| "TrimLeftSpace (c # cs) =
     (if c \<in> set asciiSpace then TrimLeftSpace cs
      else if take 2 (c # cs) \<in> set spaceRunes2 then TrimLeftSpace (drop 1 cs)
      else if take 3 (c # cs) \<in> set spaceRunes3 then TrimLeftSpace (drop 2 cs)
      else c # cs)"

text \<open>The same from the end of the string, on the reversed string.\<close>

fun dropSpaceRev :: "string \<Rightarrow> string" where
  "dropSpaceRev [] = []"
| "dropSpaceRev (c # cs) =
     (if c \<in> set asciiSpace then dropSpaceRev cs
      else if rev (take 2 (c # cs)) \<in> set spaceRunes2 then dropSpaceRev (drop 1 cs)
      else if rev (take 3 (c # cs)) \<in> set spaceRunes3 then dropSpaceRev (drop 2 cs)
      else c # cs)"

definition TrimRightSpace :: "string \<Rightarrow> string" where
  "TrimRightSpace s = rev (dropSpaceRev (rev s))"

definition TrimSpace :: "string \<Rightarrow> string" where
  "TrimSpace s = TrimRightSpace (TrimLeftSpace s)"

text \<open>\<open>strings.Index(s, string(c))\<close> for a single byte \<open>c\<close>: the first index, or -1.\<close>

fun Index :: "string \<Rightarrow> char \<Rightarrow> int" where
  "Index [] c = -1"
| "Index (x # xs) c = (if x = c then 0 else (let i = Index xs c in if i = -1 then -1 else i + 1))"

text \<open>
  \<open>strings.ToLower\<close> on the bytes of ASCII: a capital letter gets the bit of value 32, which
  makes it the small letter.
\<close>

definition lowerByte :: "char \<Rightarrow> char" where
  "lowerByte c =
     (if CHR ''A'' \<le> c \<and> c \<le> CHR ''Z''
      then Char (digit0 c) (digit1 c) (digit2 c) (digit3 c) (digit4 c) True (digit6 c) (digit7 c)
      else c)"

definition ToLower :: "string \<Rightarrow> string" where
  "ToLower s = map lowerByte s"

subsection \<open>The pattern\<close>

text \<open>
  \<open>parseResetTimePattern\<close> is \<^verbatim>\<open>(?i)^(\d{1,2})(?::(\d{2}))?\s*(am|pm)\b\<close>. Every choice in
  it is decided by the next byte: a second digit is taken when there is one (with one
  digit only, the rest would have to go on with a digit, which no later part accepts);
  the minutes are taken when a colon and two digits follow (a colon is accepted by
  nothing else); white space is skipped as long as there is some. So the leftmost match
  that the regexp engine reports is the match found without backtracking, and the
  functions below read the three groups off the string. \<open>\d\<close> is an ASCII digit, \<open>\s\<close> is
  one of tab, line feed, form feed, carriage return and space, and \<open>\b\<close> after the letter
  asks for the end of the text or a byte that is not an ASCII letter, digit or underscore.
\<close>

definition isDigit :: "char \<Rightarrow> bool" where
  "isDigit c = (CHR ''0'' \<le> c \<and> c \<le> CHR ''9'')"

definition isPatternSpace :: "char \<Rightarrow> bool" where
  "isPatternSpace c = (c \<in> set [CHR 0x09, CHR 0x0A, CHR 0x0C, CHR 0x0D, CHR 0x20])"

definition isWordByte :: "char \<Rightarrow> bool" where
  "isWordByte c =
     (isDigit c \<or> (CHR ''a'' \<le> c \<and> c \<le> CHR ''z'') \<or> (CHR ''A'' \<le> c \<and> c \<le> CHR ''Z'')
      \<or> c = CHR ''_'')"

text \<open>\<^verbatim>\<open>(\d{1,2})\<close>: the group and the rest of the text.\<close>

fun hourGroup :: "string \<Rightarrow> (string \<times> string) option" where
  "hourGroup (a # b # rest) =
     (if isDigit a then (if isDigit b then Some ([a, b], rest) else Some ([a], b # rest))
      else None)"
| "hourGroup [a] = (if isDigit a then Some ([a], []) else None)"
| "hourGroup [] = None"

text \<open>\<^verbatim>\<open>(?::(\d{2}))?\<close>: the group (empty when it takes no part) and the rest.\<close>

fun minuteGroup :: "string \<Rightarrow> string \<times> string" where
  "minuteGroup (c # a # b # rest) =
     (if c = CHR '':'' \<and> isDigit a \<and> isDigit b then ([a, b], rest) else ([], c # a # b # rest))"
| "minuteGroup s = ([], s)"

text \<open>\<^verbatim>\<open>(am|pm)\b\<close> without regard to case.\<close>

fun meridiemGroup :: "string \<Rightarrow> string option" where
  "meridiemGroup (a # m # rest) =
     (if lowerByte a \<in> set [CHR ''a'', CHR ''p''] \<and> lowerByte m = CHR ''m''
         \<and> (case rest of [] \<Rightarrow> True | r # _ \<Rightarrow> \<not> isWordByte r)
      then Some [a, m] else None)"
| "meridiemGroup s = None"

text \<open>
  \<open>parseResetTimePattern.FindStringSubmatch\<close>: \<open>None\<close> for no match (the nil slice),
  \<open>Some (m1, m2, m3)\<close> for the slice \<open>[m0, m1, m2, m3]\<close> of a match.
\<close>

definition FindStringSubmatch :: "string \<Rightarrow> (string \<times> string \<times> string) option" where
  "FindStringSubmatch s =
     (case hourGroup s of
        None \<Rightarrow> None
      | Some (m1, rest1) \<Rightarrow>
          (let (m2, rest2) = minuteGroup rest1 in
           case meridiemGroup (dropWhile isPatternSpace rest2) of
             None \<Rightarrow> None
           | Some m3 \<Rightarrow> Some (m1, m2, m3)))"

subsection \<open>fmt.Sscanf with the verb d\<close>

text \<open>
  \<open>fmt.Sscanf(s, "%d", &n)\<close> reads an optional sign and the decimal digits that follow; it
  fails, and leaves \<open>n\<close> as it was, when there is no digit. (Blanks before the number,
  which the scanner would skip, do not occur in a group of the pattern.)
\<close>

definition digitValue :: "char \<Rightarrow> int" where
  "digitValue c = int (of_char c) - 48"

definition decimal :: "string \<Rightarrow> int" where
  "decimal ds = foldl (\<lambda>n c. 10 * n + digitValue c) 0 ds"

definition Sscanf_d :: "string \<Rightarrow> int option" where
  "Sscanf_d s =
     (let (neg, body) =
            (case s of
               c # cs \<Rightarrow> if c = CHR ''-'' then (True, cs) else if c = CHR ''+'' then (False, cs)
                          else (False, s)
             | [] \<Rightarrow> (False, s));
          ds = takeWhile isDigit body
      in if ds = [] then None else Some (if neg then - decimal ds else decimal ds))"

subsection \<open>Instants and zones\<close>

text \<open>
  An instant is a number of seconds since the Unix epoch and a number of nanoseconds
  within the second, as in \<open>time.Time\<close>, together with the location it is shown in. A
  location is, as in package \<open>time\<close>, a table of transitions: \<open>firstOffset\<close> is the offset
  from UTC, in seconds, that is in force before the first transition, and \<open>transitions\<close>
  lists, in ascending order of the instants, the instant of each transition and the offset
  in force from then on. UTC is the location with offset 0 and no transition. (The rule
  that continues the table of a zone beyond its last transition and the cache of the last
  lookup are left out: a location is its table.)

  \<open>lookup\<close> is \<open>Location.lookup\<close>: the offset in force at an instant and the bounds
  \<open>start \<le> sec < end\<close> of the period in which it is in force, \<open>alpha\<close> and \<open>omega\<close> standing
  for a period without a beginning or without an end.
\<close>

record Location =
  zoneName :: string
  firstOffset :: int
  transitions :: "(int \<times> int) list"

definition alpha :: int where
  "alpha = - (2 ^ 63)"

definition omega :: int where
  "omega = 2 ^ 63 - 1"

fun lookupFrom :: "int \<Rightarrow> int \<Rightarrow> (int \<times> int) list \<Rightarrow> int \<Rightarrow> int \<times> int \<times> int" where
  "lookupFrom offset start [] sec = (offset, start, omega)"
| "lookupFrom offset start (tx # rest) sec =
     (if sec < fst tx then (offset, start, fst tx) else lookupFrom (snd tx) (fst tx) rest sec)"

definition lookup :: "Location \<Rightarrow> int \<Rightarrow> int \<times> int \<times> int" where
  "lookup l sec = lookupFrom (firstOffset l) alpha (transitions l) sec"

record Time =
  unixSec :: int
  nsec :: int
  location :: Location

text \<open>
  \<open>Time.In\<close> shows the same instant in another location. The clock of an instant is read
  in its location with the offset in force at the instant (\<open>Time.abs\<close>): \<open>localSec\<close> is
  the reading in seconds, \<open>Hour\<close> and \<open>Minute\<close> are those of package \<open>time\<close>. A calendar
  date is represented by the number of its day, counted from 1 January 1970: \<open>localDay\<close>
  stands for the triple \<open>Year\<close>, \<open>Month\<close>, \<open>Day\<close> of an instant.
\<close>

definition In :: "Time \<Rightarrow> Location \<Rightarrow> Time" where
  "In t loc = t\<lparr>location := loc\<rparr>"

definition localSec :: "Time \<Rightarrow> int" where
  "localSec t = unixSec t + fst (lookup (location t) (unixSec t))"

definition localDay :: "Time \<Rightarrow> int" where
  "localDay t = localSec t div 86400"

definition Hour :: "Time \<Rightarrow> int" where
  "Hour t = (localSec t mod 86400) div 3600"

definition Minute :: "Time \<Rightarrow> int" where
  "Minute t = (localSec t mod 3600) div 60"

text \<open>
  \<open>time.Date\<close>, with the day in place of the triple of year, month and day. It normalises
  its arguments (an hour of 25 is one o'clock of the next day), which is what the sum
  does, and so gets the reading of the clock in seconds, \<open>unix\<close>. To find the instant it
  looks the reading up as if it were an instant; when the offset found is not zero and
  the instant that this offset gives lies outside the period found, it looks that instant
  up and takes the offset in force there.
\<close>

definition Date :: "int \<Rightarrow> int \<Rightarrow> int \<Rightarrow> int \<Rightarrow> int \<Rightarrow> Location \<Rightarrow> Time" where
  "Date day hour minute sec ns loc =
     (let unix = day * 86400 + hour * 3600 + minute * 60 + sec + ns div 1000000000;
          (offset, start, end) = lookup loc unix;
          unix' =
            (if offset \<noteq> 0
             then (let utc = unix - offset;
                       offset' = (if utc < start \<or> utc \<ge> end then fst (lookup loc utc) else offset)
                   in unix - offset')
             else unix)
      in \<lparr>unixSec = unix', nsec = ns mod 1000000000, location = loc\<rparr>)"

definition After :: "Time \<Rightarrow> Time \<Rightarrow> bool" where
  "After t u = (unixSec t > unixSec u \<or> (unixSec t = unixSec u \<and> nsec t > nsec u))"

subsection \<open>ParseResetTime\<close>

text \<open>
  The zone in parentheses: \<open>LoadLocation\<close> is \<open>time.LoadLocation\<close>, the lookup in the
  time zone database of the machine (\<open>None\<close> for an error). The result is the location
  to resolve in and the text that is left for the pattern.
\<close>

definition splitZone ::
  "(string \<Rightarrow> Location option) \<Rightarrow> Location \<Rightarrow> string \<Rightarrow> Location \<times> string" where
  "splitZone LoadLocation loc resetsAt =
     (let idx = Index resetsAt CHR ''(''
      in if idx \<noteq> -1
         then (let end = Index resetsAt CHR '')''
               in if end > idx
                  then (let tzName = TrimSpace (take (nat (end - idx - 1)) (drop (nat (idx + 1)) resetsAt))
                        in (case LoadLocation tzName of None \<Rightarrow> loc | Some parsed \<Rightarrow> parsed,
                            TrimSpace (take (nat idx) resetsAt)))
                  else (loc, resetsAt))
         else (loc, resetsAt))"

text \<open>The hour of the day from the hour read and the meridiem.\<close>

definition meridiemHour :: "string \<Rightarrow> int \<Rightarrow> int" where
  "meridiemHour ampm hour =
     (if ampm = ''pm'' \<and> hour \<noteq> 12 then hour + 12
      else if ampm = ''am'' \<and> hour = 12 then 0
      else hour)"

text \<open>
  What \<open>ParseResetTime\<close> does with the groups of a match: \<open>hour\<close> and \<open>minute\<close> start at
  zero and are set by \<open>Sscanf\<close>, whose error is not looked at, so that a group that does
  not scan leaves the zero; the result is built by \<open>time.Date\<close> from the date of the
  reference instant in the resolution zone.
\<close>

definition resetFromMatch :: "Time \<Rightarrow> Location \<Rightarrow> string \<times> string \<times> string \<Rightarrow> Time" where
  "resetFromMatch reference loc m =
     (case m of (m1, m2, m3) \<Rightarrow>
        (let hour = (case Sscanf_d m1 of None \<Rightarrow> 0 | Some n \<Rightarrow> n);
             minute = (if m2 \<noteq> [] then (case Sscanf_d m2 of None \<Rightarrow> 0 | Some n \<Rightarrow> n) else 0);
             ampm = ToLower m3;
             refInLoc = In reference loc
         in Date (localDay refInLoc) (meridiemHour ampm hour) minute 0 0 loc))"

definition ParseResetTime ::
  "(string \<Rightarrow> Location option) \<Rightarrow> string \<Rightarrow> Time \<Rightarrow> error + Time" where
  "ParseResetTime LoadLocation resetsAt reference =
     (let (loc, rest) = splitZone LoadLocation (location reference) (TrimSpace resetsAt)
      in case FindStringSubmatch rest of
           None \<Rightarrow> Inl (ParseError rest)
         | Some m \<Rightarrow> Inr (resetFromMatch reference loc m))"


subsection \<open>ClearExpired\<close>

text \<open>The body of the loop of \<open>clearExpiredAt\<close> for one key, on the map and the counter.\<close>

definition clearOne ::
  "(string \<Rightarrow> Location option) \<Rightarrow> Time \<Rightarrow> string
     \<Rightarrow> (string \<rightharpoonup> AccountQuotaState) \<times> int \<Rightarrow> (string \<rightharpoonup> AccountQuotaState) \<times> int" where
  "clearOne LoadLocation now handle mc =
     (case fst mc handle of
        None \<Rightarrow> mc
      | Some acctState \<Rightarrow>
          if Status acctState \<noteq> QuotaStatusLimited then mc
          else if ResetsAt acctState = [] then mc
          else (case ParseResetTime LoadLocation (ResetsAt acctState) now of
                  Inl err \<Rightarrow> mc
                | Inr resetTime \<Rightarrow>
                    if After now resetTime
                    then ((fst mc)(handle \<mapsto>
                            \<lparr>Status = QuotaStatusAvailable, LimitedAt = [], ResetsAt = [],
                             LastUsed = LastUsed acctState\<rparr>),
                          snd mc + 1)
                    else mc))"

fun clearLoop ::
  "(string \<Rightarrow> Location option) \<Rightarrow> Time \<Rightarrow> string list
     \<Rightarrow> (string \<rightharpoonup> AccountQuotaState) \<times> int \<Rightarrow> (string \<rightharpoonup> AccountQuotaState) \<times> int" where
  "clearLoop LoadLocation now [] mc = mc"
| "clearLoop LoadLocation now (handle # rest) mc =
     clearLoop LoadLocation now rest (clearOne LoadLocation now handle mc)"

text \<open>
  \<open>clearExpiredAt\<close>: the state after the call and the number returned. Ranging over a nil
  map runs the body not once.
\<close>

definition clearExpiredAt ::
  "(string \<Rightarrow> Location option) \<Rightarrow> string list \<Rightarrow> QuotaState \<Rightarrow> Time \<Rightarrow> QuotaState \<times> int" where
  "clearExpiredAt LoadLocation ks state now =
     (case Accounts state of
        None \<Rightarrow> (state, 0)
      | Some m \<Rightarrow>
          (let r = clearLoop LoadLocation now ks (m, 0)
           in (state\<lparr>Accounts := Some (fst r)\<rparr>, snd r)))"

text \<open>
  The condition under which the sweep clears an account, as the specification words it: the status
  is \<open>limited\<close>, \<open>resetsAt\<close> is not empty and parses, and \<open>now\<close> is after the parsed
  instant. \<open>madeAvailable\<close> is the entry the sweep writes, \<open>swept\<close> what becomes of an entry.
\<close>

definition resetPassed :: "(string \<Rightarrow> Location option) \<Rightarrow> Time \<Rightarrow> AccountQuotaState \<Rightarrow> bool" where
  "resetPassed LoadLocation now a =
     (Status a = QuotaStatusLimited \<and> ResetsAt a \<noteq> []
      \<and> (case ParseResetTime LoadLocation (ResetsAt a) now of
            Inl err \<Rightarrow> False
          | Inr resetTime \<Rightarrow> After now resetTime))"

definition madeAvailable :: "AccountQuotaState \<Rightarrow> AccountQuotaState" where
  "madeAvailable a =
     \<lparr>Status = QuotaStatusAvailable, LimitedAt = [], ResetsAt = [], LastUsed = LastUsed a\<rparr>"

definition swept :: "(string \<Rightarrow> Location option) \<Rightarrow> Time \<Rightarrow> AccountQuotaState \<Rightarrow> AccountQuotaState" where
  "swept LoadLocation now a = (if resetPassed LoadLocation now a then madeAvailable a else a)"

text \<open>
  A reading of the clock, in seconds, is steady in a location when the offset that
  \<open>lookup\<close> finds for the reading taken as an instant is also the offset in force at the
  instant which that offset gives for the reading: no change of the clocks of the zone
  lies between the two. In Los Angeles the readings that are not steady lie between two
  and ten o'clock on the morning of a change of the clocks, and in UTC every reading is
  steady.
\<close>

definition steady :: "Location \<Rightarrow> int \<Rightarrow> bool" where
  "steady loc wall = (fst (lookup loc (wall - fst (lookup loc wall))) = fst (lookup loc wall))"

section \<open>The keychain (package quota, keychain_darwin.go)\<close>

subsection \<open>KeychainServiceName\<close>

text \<open>
  \<open>home\<close> is the result of \<open>os.UserHomeDir\<close> (\<open>None\<close> for an error), and \<open>Sum256\<close> is
  \<open>sha256.Sum256\<close> on the bytes of a string, a function of the standard library that the
  model takes as a parameter: nothing below depends on what the digest of a string is.
  \<open>hexBytes\<close> is the verb \<^verbatim>\<open>%x\<close> of \<open>fmt\<close> on a slice of bytes.
\<close>

definition keychainServiceBase :: string where
  "keychainServiceBase = ''Claude Code-credentials''"

definition defaultClaudeConfigDir :: string where
  "defaultClaudeConfigDir = ''.claude''"

text \<open>\<open>strings.HasPrefix\<close>.\<close>

definition HasPrefix :: "string \<Rightarrow> string \<Rightarrow> bool" where
  "HasPrefix s p = (take (length p) s = p)"

definition expandTilde :: "string option \<Rightarrow> string \<Rightarrow> string" where
  "expandTilde home path =
     (if HasPrefix path ''~/''
      then (case home of Some h \<Rightarrow> h @ drop 1 path | None \<Rightarrow> path)
      else path)"

definition hexDigit :: "nat \<Rightarrow> char" where
  "hexDigit n = ''0123456789abcdef'' ! n"

definition hexByte :: "8 word \<Rightarrow> string" where
  "hexByte b = [hexDigit (unat b div 16), hexDigit (unat b mod 16)]"

definition hexBytes :: "8 word list \<Rightarrow> string" where
  "hexBytes bs = concat (map hexByte bs)"

definition KeychainServiceName :: "(string \<Rightarrow> 8 word list) \<Rightarrow> string option \<Rightarrow> string \<Rightarrow> string" where
  "KeychainServiceName Sum256 home configDirPath =
     (let expanded = expandTilde home configDirPath;
          hashed = keychainServiceBase @ ''-'' @ hexBytes (take 4 (Sum256 expanded))
      in case home of
           Some h \<Rightarrow>
             if expanded = h @ ''/'' @ defaultClaudeConfigDir then keychainServiceBase else hashed
         | None \<Rightarrow> hashed)"

text \<open>Whether an expanded path is the default configuration directory of the home.\<close>

definition defaultPath :: "string option \<Rightarrow> string \<Rightarrow> bool" where
  "defaultPath home expanded =
     (case home of None \<Rightarrow> False | Some h \<Rightarrow> expanded = h @ ''/'' @ defaultClaudeConfigDir)"

subsection \<open>Reading, writing, swapping and restoring\<close>

text \<open>
  The keychain is reached through the \<open>security\<close> tool of macOS, which is modelled here:
  the store maps a service name to the secret kept under it; \<open>find-generic-password -w\<close>
  prints the secret followed by a line feed, and fails when there is no entry;
  \<open>add-generic-password -U\<close> puts the secret under the service name, replacing what was
  there (the account label is a display name and no part of the address). Every run of
  the tool can also fail for a reason of its own (the keychain is locked, access is
  refused, the tool cannot be started): \<open>failing\<close> tells, for the runs to come and in
  their order, which of them fail. A run takes the head of the list; when the list is
  used up, no run fails. A run that fails leaves the store as it is.
\<close>

record keychain =
  entries :: "string \<rightharpoonup> string"
  failing :: "bool list"

definition runSecurity :: "keychain \<Rightarrow> bool \<times> keychain" where
  "runSecurity kc = (case failing kc of [] \<Rightarrow> (False, kc) | f # fs \<Rightarrow> (f, kc\<lparr>failing := fs\<rparr>))"

record KeychainCredential =
  ServiceName :: string
  Token :: string

definition ReadKeychainToken :: "keychain \<Rightarrow> string \<Rightarrow> (error + string) \<times> keychain" where
  "ReadKeychainToken kc serviceName =
     (let (failed, kc') = runSecurity kc
      in if failed then (Inl (CredentialReadFailure serviceName), kc')
         else case entries kc' serviceName of
           None \<Rightarrow> (Inl (CredentialReadFailure serviceName), kc')
         | Some secret \<Rightarrow> (Inr (TrimSpace (secret @ [CHR 0x0A])), kc'))"

definition WriteKeychainToken :: "keychain \<Rightarrow> string \<Rightarrow> string \<Rightarrow> string \<Rightarrow> error option \<times> keychain" where
  "WriteKeychainToken kc serviceName accountLabel token =
     (let (failed, kc') = runSecurity kc
      in if failed then (Some (CredentialWriteFailure serviceName), kc')
         else (None, kc'\<lparr>entries := (entries kc')(serviceName \<mapsto> token)\<rparr>))"

definition SwapKeychainCredential ::
  "(string \<Rightarrow> 8 word list) \<Rightarrow> string option \<Rightarrow> keychain \<Rightarrow> string \<Rightarrow> string
     \<Rightarrow> (error + KeychainCredential) \<times> keychain" where
  "SwapKeychainCredential Sum256 home kc targetConfigDir sourceConfigDir =
     (let targetSvc = KeychainServiceName Sum256 home targetConfigDir;
          sourceSvc = KeychainServiceName Sum256 home sourceConfigDir
      in case ReadKeychainToken kc targetSvc of
           (Inl err, kc1) \<Rightarrow> (Inl err, kc1)
         | (Inr backupToken, kc1) \<Rightarrow>
             (case ReadKeychainToken kc1 sourceSvc of
                (Inl err, kc2) \<Rightarrow> (Inl err, kc2)
              | (Inr sourceToken, kc2) \<Rightarrow>
                  (case WriteKeychainToken kc2 targetSvc ''claude-code'' sourceToken of
                     (Some err, kc3) \<Rightarrow> (Inl err, kc3)
                   | (None, kc3) \<Rightarrow>
                       (Inr \<lparr>ServiceName = targetSvc, Token = backupToken\<rparr>, kc3))))"

definition RestoreKeychainToken :: "keychain \<Rightarrow> KeychainCredential option \<Rightarrow> error option \<times> keychain" where
  "RestoreKeychainToken kc backup =
     (case backup of
        None \<Rightarrow> (None, kc)
      | Some b \<Rightarrow> WriteKeychainToken kc (ServiceName b) ''claude-code'' (Token b))"

subsection \<open>ValidateKeychainToken\<close>

text \<open>
  The decoders of the standard library and the remote service are parameters of the
  model. \<open>jsonInt64Field d name doc\<close> describes \<open>json.Unmarshal\<close> of \<open>doc\<close> into a struct
  whose only field is an \<open>int64\<close> with the tag \<open>name\<close>: \<open>Undecodable\<close> when it returns an
  error (the text is no JSON object, or the member is not a number that fits an
  \<open>int64\<close>: a string, a number with a fraction or an exponent), \<open>Absent\<close> when it returns
  no error and leaves the field as it was (the document has no such member), \<open>Present n\<close>
  when it sets the field to \<open>n\<close>. The field starts at zero, so \<open>unmarshalInt64\<close> is what
  the code sees: no value for an error, and otherwise the value of the field.
  \<open>base64RawURLDecode\<close> is \<open>base64.RawURLEncoding.DecodeString\<close> and \<open>httpPostStatus\<close> the
  status of the answer to the request of \<open>validateTokenHTTP\<close> (\<open>None\<close> for a failure of
  the network). \<open>now\<close> is \<open>time.Now().Unix()\<close>. The result of the validation is the
  error returned, if any, and the number of requests handed to the network.
\<close>

datatype jsonInt64 = Undecodable | Absent | Present int

record decoders =
  jsonInt64Field :: "string \<Rightarrow> string \<Rightarrow> jsonInt64"
  base64RawURLDecode :: "string \<Rightarrow> string option"
  httpPostStatus :: "string \<Rightarrow> nat option"

definition unmarshalInt64 :: "decoders \<Rightarrow> string \<Rightarrow> string \<Rightarrow> int option" where
  "unmarshalInt64 d name doc =
     (case jsonInt64Field d name doc of
        Undecodable \<Rightarrow> None
      | Absent \<Rightarrow> Some 0
      | Present n \<Rightarrow> Some n)"

text \<open>\<open>strings.Split\<close> on a separator of one byte.\<close>

fun splitOn :: "char \<Rightarrow> string \<Rightarrow> string \<Rightarrow> string list" where
  "splitOn sep cur [] = [rev cur]"
| "splitOn sep cur (c # cs) =
     (if c = sep then rev cur # splitOn sep [] cs else splitOn sep (c # cur) cs)"

definition Split :: "string \<Rightarrow> char \<Rightarrow> string list" where
  "Split s sep = splitOn sep [] s"

text \<open>
  \<open>validateTokenHTTP\<close>. \<open>http.NewRequest\<close> does not fail on the constant method and
  address. \<open>client.Do\<close> refuses the request, before anything is sent, when the value of a
  header holds a control character other than the tab (a byte below 0x20, or 0x7F):
  \<open>validHeaderFieldValue\<close> is that check of \<open>net/http\<close>, made here on the value of the
  \<open>Authorization\<close> header, the only one that is not a constant. The error of \<open>client.Do\<close>,
  for a request refused or for a failure of the network, is answered by \<open>nil\<close>.
\<close>

definition validHeaderFieldValue :: "string \<Rightarrow> bool" where
  "validHeaderFieldValue v =
     (filter (\<lambda>c. (c < CHR 0x20 \<or> c = CHR 0x7F) \<and> c \<noteq> CHR 0x09) v = [])"

definition validateTokenHTTP :: "decoders \<Rightarrow> string \<Rightarrow> error option \<times> nat" where
  "validateTokenHTTP d token =
     (if \<not> validHeaderFieldValue (''Bearer '' @ token) then (None, 0)
      else case httpPostStatus d token of
        None \<Rightarrow> (None, 1)
      | Some status \<Rightarrow> (if status = 401 then Some Rejected else None, 1))"

text \<open>
  The two local strategies: the expiry that the guard
  \<open>json.Unmarshal(...) == nil && cred.ExpiresAt > 0\<close> lets through, for the secret as a JSON
  credential and for the payload of a token of three segments; and the comparison with
  the time, which both share.
\<close>

definition credentialExpiry :: "decoders \<Rightarrow> string \<Rightarrow> int option" where
  "credentialExpiry d raw =
     (case unmarshalInt64 d ''expires_at'' raw of
        None \<Rightarrow> None
      | Some expiresAt \<Rightarrow> if expiresAt > 0 then Some expiresAt else None)"

definition jwtExpiry :: "decoders \<Rightarrow> string \<Rightarrow> int option" where
  "jwtExpiry d raw =
     (case Split raw CHR ''.'' of
        [header, body, signature] \<Rightarrow>
          (case base64RawURLDecode d body of
             None \<Rightarrow> None
           | Some payload \<Rightarrow>
               (case unmarshalInt64 d ''exp'' payload of
                  None \<Rightarrow> None
                | Some exp \<Rightarrow> if exp > 0 then Some exp else None))
      | parts \<Rightarrow> None)"

definition checkExpiry :: "int \<Rightarrow> int \<Rightarrow> error option \<times> nat" where
  "checkExpiry now expiry = (if now \<ge> expiry then (Some (Expired expiry), 0) else (None, 0))"

text \<open>
  \<open>ValidateKeychainToken\<close> reads the keychain once; the keychain after the call differs
  from the one before by that run of the tool only, and is left out of the result.
\<close>

definition ValidateKeychainToken ::
  "decoders \<Rightarrow> (string \<Rightarrow> 8 word list) \<Rightarrow> string option \<Rightarrow> keychain \<Rightarrow> int \<Rightarrow> string
     \<Rightarrow> error option \<times> nat" where
  "ValidateKeychainToken d Sum256 home kc now configDir =
     (case fst (ReadKeychainToken kc (KeychainServiceName Sum256 home configDir)) of
        Inl err \<Rightarrow> (None, 0)
      | Inr raw \<Rightarrow>
          if raw = [] then (None, 0)
          else (case credentialExpiry d raw of
                  Some expiresAt \<Rightarrow> checkExpiry now expiresAt
                | None \<Rightarrow>
                    (case jwtExpiry d raw of
                       Some exp \<Rightarrow> checkExpiry now exp
                     | None \<Rightarrow> validateTokenHTTP d raw)))"


section \<open>Fixtures of the tests (state_test.go)\<close>

text \<open>
  The zones of the tests and of the examples, as the time zone database has them for the
  years in question. Los Angeles is eight hours behind UTC and seven in summer, with the
  changes at 10:00 UTC on the second Sunday of March and at 09:00 UTC on the first Sunday
  of November (here for 2025 to 2027). Havana is five hours behind UTC and four in
  summer; in 2026 its clocks go from midnight to one o'clock on 8 March (05:00 UTC) and
  back on 1 November. Apia was ten hours behind UTC in December 2011 and went fourteen
  hours ahead at the end of 29 December (10:00 UTC on 30 December), so that 30 December
  2011 did not exist there.
\<close>

definition testZone :: Location where
  "testZone =
     \<lparr>zoneName = ''America/Los_Angeles'', firstOffset = - 28800,
      transitions =
        [(1741514400, - 25200), (1762074000, - 28800),
         (1772964000, - 25200), (1793523600, - 28800),
         (1805018400, - 25200), (1825578000, - 28800)]\<rparr>"

definition utcZone :: Location where
  "utcZone = \<lparr>zoneName = ''UTC'', firstOffset = 0, transitions = []\<rparr>"

definition havanaZone :: Location where
  "havanaZone =
     \<lparr>zoneName = ''America/Havana'', firstOffset = - 18000,
      transitions = [(1772946000, - 14400), (1793509200, - 18000)]\<rparr>"

definition apiaZone :: Location where
  "apiaZone =
     \<lparr>zoneName = ''Pacific/Apia'', firstOffset = - 36000,
      transitions = [(1325239200, 50400)]\<rparr>"

definition testLoadLocation :: "string \<Rightarrow> Location option" where
  "testLoadLocation name =
     (if name = ''America/Los_Angeles'' then Some testZone
      else if name = ''UTC'' then Some utcZone
      else if name = ''America/Havana'' then Some havanaZone
      else if name = ''Pacific/Apia'' then Some apiaZone
      else None)"

text \<open>\<open>TestClearExpired_ClearsPassedResetTime\<close>: 18 February 2026, 3 pm in Los Angeles.\<close>

definition testNow :: Time where
  "testNow = \<lparr>unixSec = 1771455600, nsec = 0, location = testZone\<rparr>"

text \<open>
  Other reference instants, all shown in Los Angeles: 5 pm on the same day, when it is
  already 19 February in UTC; 1 am on 8 March 2026, an hour before the clocks go
  forward (in Havana it is 5 am of a day that began at one o'clock); a quarter past the
  second 1 am on 1 November 2026, after the clocks have gone back; and noon of
  29 December 2011 in Apia.
\<close>

definition testEvening :: Time where
  "testEvening = \<lparr>unixSec = 1771462800, nsec = 0, location = testZone\<rparr>"

definition springForward :: Time where
  "springForward = \<lparr>unixSec = 1772960400, nsec = 0, location = testZone\<rparr>"

definition fallBack :: Time where
  "fallBack = \<lparr>unixSec = 1793524500, nsec = 0, location = testZone\<rparr>"

definition apiaNoon :: Time where
  "apiaNoon = \<lparr>unixSec = 1325196000, nsec = 0, location = testZone\<rparr>"


text \<open>\<open>TestMarkLimited\<close>: the state saved before the call, in a world where nothing fails.\<close>

definition markLimitedState :: QuotaState where
  "markLimitedState =
     \<lparr>Version = 1,
      Accounts = Some [''work'' \<mapsto>
        \<lparr>Status = ''available'', LimitedAt = [], ResetsAt = [], LastUsed = ''2025-01-01T00:00:00Z''\<rparr>]\<rparr>"

definition markLimitedWorld :: world where
  "markLimitedWorld =
     \<lparr>quotaFile = Document markLimitedState, lockable = True, writable = True,
      clock = ''2026-02-18T23:00:00Z''\<rparr>"

text \<open>\<open>TestAvailableAccounts\<close>.\<close>

definition availableState :: QuotaState where
  "availableState =
     \<lparr>Version = 0,
      Accounts = Some
        [''a'' \<mapsto> \<lparr>Status = ''available'', LimitedAt = [], ResetsAt = [], LastUsed = ''2025-01-01T03:00:00Z''\<rparr>,
         ''b'' \<mapsto> \<lparr>Status = ''limited'', LimitedAt = [], ResetsAt = [], LastUsed = []\<rparr>,
         ''c'' \<mapsto> \<lparr>Status = ''available'', LimitedAt = [], ResetsAt = [], LastUsed = ''2025-01-01T01:00:00Z''\<rparr>,
         ''d'' \<mapsto> \<lparr>Status = [], LimitedAt = [], ResetsAt = [], LastUsed = ''2025-01-01T02:00:00Z''\<rparr>]\<rparr>"

text \<open>
  \<open>TestClearExpired_ClearsPassedResetTime\<close> and \<open>TestClearExpired_NoResetsAt\<close>, with an
  account whose \<open>resetsAt\<close> does not parse, and one order of the iteration.
\<close>

definition clearExpiredState :: QuotaState where
  "clearExpiredState =
     \<lparr>Version = 0,
      Accounts = Some
        [''expired'' \<mapsto> \<lparr>Status = ''limited'', LimitedAt = [], ResetsAt = ''11am (America/Los_Angeles)'',
                         LastUsed = ''2026-02-18T10:00:00Z''\<rparr>,
         ''still_limited'' \<mapsto> \<lparr>Status = ''limited'', LimitedAt = [], ResetsAt = ''7pm (America/Los_Angeles)'',
                         LastUsed = ''2026-02-18T10:00:00Z''\<rparr>,
         ''available'' \<mapsto> \<lparr>Status = ''available'', LimitedAt = [], ResetsAt = [], LastUsed = []\<rparr>,
         ''no_reset'' \<mapsto> \<lparr>Status = ''limited'', LimitedAt = [], ResetsAt = [], LastUsed = []\<rparr>,
         ''garbled'' \<mapsto> \<lparr>Status = ''limited'', LimitedAt = [], ResetsAt = ''garbage'', LastUsed = []\<rparr>]\<rparr>"

text \<open>
  Accounts whose zone is not that of the reference instant, for \<open>testEvening\<close>: midnight
  and two o'clock in UTC, where the day is already 19 February; and an account limited
  until half past one, for \<open>fallBack\<close>.
\<close>

definition zonedState :: QuotaState where
  "zonedState =
     \<lparr>Version = 0,
      Accounts = Some
        [''utc_early'' \<mapsto> \<lparr>Status = ''limited'', LimitedAt = [], ResetsAt = ''12am (UTC)'', LastUsed = []\<rparr>,
         ''utc_later'' \<mapsto> \<lparr>Status = ''limited'', LimitedAt = [], ResetsAt = ''2am (UTC)'', LastUsed = []\<rparr>]\<rparr>"

definition fallBackState :: QuotaState where
  "fallBackState =
     \<lparr>Version = 0,
      Accounts = Some
        [''second'' \<mapsto> \<lparr>Status = ''limited'', LimitedAt = [], ResetsAt = ''1:30am'', LastUsed = []\<rparr>]\<rparr>"

definition clearExpiredOrder :: "string list" where
  "clearExpiredOrder = [''garbled'', ''expired'', ''available'', ''no_reset'', ''still_limited'']"

text \<open>
  A keychain with the default profile of the home \<open>/Users/u\<close>, holding \<open>secret\<close>, and a
  second profile holding a fresh token.
\<close>

definition swapKeychain :: "(string \<Rightarrow> 8 word list) \<Rightarrow> string \<Rightarrow> keychain" where
  "swapKeychain Sum256 secret =
     \<lparr>entries = [KeychainServiceName Sum256 (Some ''/Users/u'') ''~/work'' \<mapsto> ''fresh'',
                 KeychainServiceName Sum256 (Some ''/Users/u'') ''~/.claude'' \<mapsto> secret],
      failing = []\<rparr>"

text \<open>
  Secrets with an expiry of 4 pm on the day of \<open>testNow\<close> in both encodings, a credential
  whose expiry is zero, and the decoders restricted to these documents.
\<close>

definition jsonCredential :: string where
  \<open>jsonCredential = ''{"access_token":"t","expires_at":1771459200}''\<close>

definition jwtPayload :: string where
  \<open>jwtPayload = ''{"exp":1771459200}''\<close>

definition jwtToken :: string where
  "jwtToken = ''eyJhbGciOiJub25lIn0.eyJleHAiOjE3NzE0NTkyMDB9.c2ln''"

definition epochCredential :: string where
  \<open>epochCredential = ''{"expires_at":0}''\<close>

text \<open>
  A credential whose expiry is not an integer, which \<open>json.Unmarshal\<close> refuses for a
  field of type \<open>int64\<close>, and a secret of two lines, which cannot stand in a header.
\<close>

definition fractionalCredential :: string where
  \<open>fractionalCredential = ''{"expires_at":1771459200.5}''\<close>

definition twoLines :: string where
  "twoLines = ''first'' @ [CHR 0x0A] @ ''second''"

definition testDecoders :: "nat option \<Rightarrow> decoders" where
  "testDecoders answer =
     \<lparr>jsonInt64Field = (\<lambda>name doc.
         if name = ''expires_at'' \<and> doc = jsonCredential then Present 1771459200
         else if name = ''expires_at'' \<and> doc = epochCredential then Present 0
         else if name = ''exp'' \<and> doc = jwtPayload then Present 1771459200
         else Undecodable),
      base64RawURLDecode = (\<lambda>s. if s = ''eyJleHAiOjE3NzE0NTkyMDB9'' then Some jwtPayload else None),
      httpPostStatus = (\<lambda>token. answer)\<rparr>"

section \<open>Load and the status transitions\<close>

lemma Load_allocated: "Load cv w = Inr state \<Longrightarrow> Accounts state \<noteq> None"
  by (auto simp: Load_def split: persisted.splits if_splits)

lemma MarkLimited_result:
  assumes "Load cv w = Inr state"
  shows "\<exists>state'. Load cv (snd (MarkLimited cv w handle resetsAt)) = Inr state'
           \<and> LastUsed (accountAt state' handle) = LastUsed (accountAt state handle)
           \<and> (fst (MarkLimited cv w handle resetsAt) = None \<longrightarrow>
                Status (accountAt state' handle) = QuotaStatusLimited
                \<and> LimitedAt (accountAt state' handle) = clock w
                \<and> ResetsAt (accountAt state' handle) = resetsAt)"
proof -
  obtain m where m: "Accounts state = Some m"
    using Load_allocated [OF assms] by auto
  show ?thesis
    using assms m
    by (auto simp: MarkLimited_def assign_def EnsureDirAndWriteJSON_def Load_def accountAt_def
        valueAt_def)
qed

lemma MarkAvailable_result:
  assumes "Load cv w = Inr state"
  shows "\<exists>state'. Load cv (snd (MarkAvailable cv w handle)) = Inr state'
           \<and> LastUsed (accountAt state' handle) = LastUsed (accountAt state handle)
           \<and> (fst (MarkAvailable cv w handle) = None \<longrightarrow>
                Status (accountAt state' handle) = QuotaStatusAvailable
                \<and> LimitedAt (accountAt state' handle) = []
                \<and> ResetsAt (accountAt state' handle) = [])"
proof -
  obtain m where m: "Accounts state = Some m"
    using Load_allocated [OF assms] by auto
  show ?thesis
    using assms m
    by (auto simp: MarkAvailable_def assign_def EnsureDirAndWriteJSON_def Load_def accountAt_def
        valueAt_def Let_def)
qed

lemma clearOne_LastUsed:
  "LastUsed (valueAt (fst (clearOne tz now handle mc)) h) = LastUsed (valueAt (fst mc) h)"
  by (auto simp: clearOne_def valueAt_def split: option.splits sum.splits)

lemma clearLoop_LastUsed:
  "LastUsed (valueAt (fst (clearLoop tz now ks mc)) h) = LastUsed (valueAt (fst mc) h)"
  by (induction ks arbitrary: mc) (simp_all add: clearOne_LastUsed)

lemma clearExpiredAt_LastUsed:
  "LastUsed (accountAt (fst (clearExpiredAt tz ks state now)) h) = LastUsed (accountAt state h)"
  by (cases "Accounts state")
     (simp_all add: clearExpiredAt_def accountAt_def clearLoop_LastUsed Let_def)

text \<open>
  C6. \<open>Load\<close> on a missing file returns the state with an allocated, empty map at the
  current version, and no error. \<open>Load\<close> on a file whose content the decoder rejects
  returns the error of the corrupt state, and with it no state at all. Every state that
  \<open>Load\<close> returns has an allocated map; for a document without the \<open>accounts\<close> member it
  is the document with the empty map put in.
\<close>

theorem Load_missing_corrupt_allocated:
  "(quotaFile w = NotExist \<longrightarrow> Load cv w = Inr \<lparr>Version = cv, Accounts = Some Map.empty\<rparr>)
   \<and> (quotaFile w = Malformed \<longrightarrow> Load cv w = Inl StateCorrupt)
   \<and> (\<forall>state. Load cv w = Inr state \<longrightarrow> Accounts state \<noteq> None)
   \<and> (\<forall>doc. quotaFile w = Document doc \<and> Accounts doc = None
         \<longrightarrow> Load cv w = Inr (doc\<lparr>Accounts := Some Map.empty\<rparr>))"
  using Load_allocated [of cv w] by (auto simp: Load_def)

theorem Load_missing_corrupt_allocated_witness:
  "Load 1 (markLimitedWorld\<lparr>quotaFile := NotExist\<rparr>) = Inr \<lparr>Version = 1, Accounts = Some Map.empty\<rparr>
   \<and> Load 1 (markLimitedWorld\<lparr>quotaFile := Malformed\<rparr>) = Inl StateCorrupt
   \<and> Load 1 (markLimitedWorld\<lparr>quotaFile := Document \<lparr>Version = 1, Accounts = None\<rparr>\<rparr>)
       = Inr \<lparr>Version = 1, Accounts = Some Map.empty\<rparr>
   \<and> Accounts \<lparr>Version = 1, Accounts = Some Map.empty\<rparr> \<noteq> None"
proof -
  let ?doc = "\<lparr>Version = 1, Accounts = None\<rparr>"
  have a: "quotaFile (markLimitedWorld\<lparr>quotaFile := NotExist\<rparr>) = NotExist" by simp
  have b: "quotaFile (markLimitedWorld\<lparr>quotaFile := Malformed\<rparr>) = Malformed" by simp
  have c: "quotaFile (markLimitedWorld\<lparr>quotaFile := Document ?doc\<rparr>) = Document ?doc
           \<and> Accounts ?doc = None" by simp
  have d: "Load 1 (markLimitedWorld\<lparr>quotaFile := Document ?doc\<rparr>)
             = Inr (?doc\<lparr>Accounts := Some Map.empty\<rparr>)"
    using Load_missing_corrupt_allocated [of "markLimitedWorld\<lparr>quotaFile := Document ?doc\<rparr>" 1] c
    by blast
  show ?thesis
    using Load_missing_corrupt_allocated [of "markLimitedWorld\<lparr>quotaFile := NotExist\<rparr>" 1] a
      Load_missing_corrupt_allocated [of "markLimitedWorld\<lparr>quotaFile := Malformed\<rparr>" 1] b d
    by simp
qed

text \<open>
  C1. Every status transition keeps \<open>lastUsed\<close>. For \<open>MarkLimited\<close> and \<open>MarkAvailable\<close>:
  whenever the state can be loaded before the call, it can be loaded after the call, the
  \<open>lastUsed\<close> of the account is what it was (empty for an account that was not there), and
  when the call returns no error the account has the new status; when the state cannot
  be loaded, the call leaves the file as it is. For the sweep of
  \<open>clearExpiredAt\<close>, in whatever order it visits the accounts, every account has the
  \<open>lastUsed\<close> it had.
\<close>

theorem lastUsed_survives_transitions:
  "(\<forall>state. Load cv w = Inr state \<longrightarrow>
      (\<exists>state'. Load cv (snd (MarkLimited cv w handle resetsAt)) = Inr state'
         \<and> LastUsed (accountAt state' handle) = LastUsed (accountAt state handle)
         \<and> (fst (MarkLimited cv w handle resetsAt) = None \<longrightarrow>
              Status (accountAt state' handle) = QuotaStatusLimited
              \<and> LimitedAt (accountAt state' handle) = clock w
              \<and> ResetsAt (accountAt state' handle) = resetsAt))
      \<and> (\<exists>state'. Load cv (snd (MarkAvailable cv w handle)) = Inr state'
         \<and> LastUsed (accountAt state' handle) = LastUsed (accountAt state handle)
         \<and> (fst (MarkAvailable cv w handle) = None \<longrightarrow>
              Status (accountAt state' handle) = QuotaStatusAvailable
              \<and> LimitedAt (accountAt state' handle) = []
              \<and> ResetsAt (accountAt state' handle) = [])))
   \<and> (\<forall>err. Load cv w = Inl err \<longrightarrow>
        snd (MarkLimited cv w handle resetsAt) = w \<and> snd (MarkAvailable cv w handle) = w)
   \<and> LastUsed (accountAt (fst (clearExpiredAt LoadLocation ks st now)) handle)
       = LastUsed (accountAt st handle)"
proof -
  have "\<forall>err. Load cv w = Inl err \<longrightarrow>
        snd (MarkLimited cv w handle resetsAt) = w \<and> snd (MarkAvailable cv w handle) = w"
    by (simp add: MarkLimited_def MarkAvailable_def)
  then show ?thesis
    using MarkLimited_result [of cv w _ handle resetsAt] MarkAvailable_result [of cv w _ handle]
      clearExpiredAt_LastUsed [of LoadLocation ks st now handle]
    by blast
qed

theorem lastUsed_survives_transitions_witness:
  "Load 1 markLimitedWorld = Inr markLimitedState
   \<and> fst (MarkLimited 1 markLimitedWorld ''work'' ''7:00 PM PST'') = None
   \<and> fst (MarkAvailable 1 markLimitedWorld ''work'') = None
   \<and> (\<exists>state'. Load 1 (snd (MarkLimited 1 markLimitedWorld ''work'' ''7:00 PM PST'')) = Inr state'
         \<and> LastUsed (accountAt state' ''work'') = ''2025-01-01T00:00:00Z''
         \<and> Status (accountAt state' ''work'') = ''limited''
         \<and> ResetsAt (accountAt state' ''work'') = ''7:00 PM PST'')
   \<and> (\<exists>state'. Load 1 (snd (MarkAvailable 1 markLimitedWorld ''work'')) = Inr state'
         \<and> LastUsed (accountAt state' ''work'') = ''2025-01-01T00:00:00Z''
         \<and> Status (accountAt state' ''work'') = ''available'')
   \<and> LastUsed (accountAt (fst (clearExpiredAt testLoadLocation [''work''] markLimitedState testNow)) ''work'')
       = ''2025-01-01T00:00:00Z''"
proof -
  have l: "Load 1 markLimitedWorld = Inr markLimitedState"
    by (simp add: Load_def markLimitedWorld_def markLimitedState_def)
  have lu: "LastUsed (accountAt markLimitedState ''work'') = ''2025-01-01T00:00:00Z''"
    by (simp add: accountAt_def valueAt_def markLimitedState_def)
  have ok: "fst (MarkLimited 1 markLimitedWorld ''work'' ''7:00 PM PST'') = None"
    "fst (MarkAvailable 1 markLimitedWorld ''work'') = None"
    by (simp_all add: MarkLimited_def MarkAvailable_def Load_def assign_def EnsureDirAndWriteJSON_def Let_def
        markLimitedWorld_def markLimitedState_def)
  show ?thesis
    using lastUsed_survives_transitions
      [of 1 markLimitedWorld "''work''" "''7:00 PM PST''" testLoadLocation "[''work'']"
          markLimitedState testNow]
      l lu ok
    by (auto simp add: QuotaStatusLimited_def QuotaStatusAvailable_def)
qed

section \<open>AvailableAccounts\<close>

text \<open>
  What one round of the insertion sort does to the sorted front \<open>p\<close> of the slice: the key
  goes behind the last handle that was not used later than the key. \<open>insertRev\<close> works on
  the front read from its end.
\<close>

fun insertRev :: "QuotaState \<Rightarrow> string \<Rightarrow> string list \<Rightarrow> string list" where
  "insertRev state key [] = [key]"
| "insertRev state key (x # xs) =
     (if LastUsed (accountAt state x) > LastUsed (accountAt state key)
      then x # insertRev state key xs else key # x # xs)"

definition insertLast :: "QuotaState \<Rightarrow> string \<Rightarrow> string list \<Rightarrow> string list" where
  "insertLast state key p = rev (insertRev state key (rev p))"

lemma insertLast_snoc:
  "insertLast state key (p @ [x]) =
     (if LastUsed (accountAt state x) > LastUsed (accountAt state key)
      then insertLast state key p @ [x] else p @ [x, key])"
  by (simp add: insertLast_def)

lemma insertLast_Nil: "insertLast state key [] = [key]"
  by (simp add: insertLast_def)

lemma shiftRight_insert:
  "n < length hs \<Longrightarrow> j = int n - 1 \<Longrightarrow>
   (fst (shiftRight state hs key j))[nat (snd (shiftRight state hs key j) + 1) := key]
     = insertLast state key (take n hs) @ drop (Suc n) hs"
proof (induction state hs key j arbitrary: n rule: shiftRight.induct)
  case (1 state handles key j)
  show ?case
  proof (cases "0 \<le> j \<and> LastUsed (accountAt state (handles ! nat j)) > LastUsed (accountAt state key)")
    case True
    then obtain k where k: "n = Suc k" using "1.prems" by (cases n) auto
    have j: "nat j = k" "nat (j + 1) = Suc k" "j - 1 = int k - 1" using "1.prems" k by auto
    have klen: "k < length (handles[nat (j + 1) := handles ! nat j])" using "1.prems" k by simp
    have IH: "(fst (shiftRight state (handles[Suc k := handles ! k]) key (j - 1)))
                [nat (snd (shiftRight state (handles[Suc k := handles ! k]) key (j - 1)) + 1) := key]
              = insertLast state key (take k (handles[Suc k := handles ! k]))
                  @ drop (Suc k) (handles[Suc k := handles ! k])"
      using "1.IH" [OF True klen] j by simp
    have t: "take (Suc k) handles = take k handles @ [handles ! k]"
      using "1.prems" k by (simp add: take_Suc_conv_app_nth)
    have d: "drop (Suc k) (handles[Suc k := handles ! k]) = handles ! k # drop (Suc (Suc k)) handles"
      using "1.prems" k by (metis Cons_nth_drop_Suc drop_update_cancel length_list_update lessI nth_list_update_eq)
    show ?thesis
      using True IH j k t d
      by (subst (1 2) shiftRight.simps) (simp add: insertLast_snoc)
  next
    case False
    show ?thesis
    proof (cases n)
      case 0
      then show ?thesis using False "1.prems"
        by (subst (1 2) shiftRight.simps) (cases handles; simp add: insertLast_Nil)
    next
      case (Suc k)
      have j: "nat j = k" "nat (j + 1) = Suc k" "0 \<le> j" using "1.prems" Suc by auto
      have t: "take (Suc k) handles = take k handles @ [handles ! k]"
        using "1.prems" Suc by (simp add: take_Suc_conv_app_nth)
      show ?thesis using False "1.prems" j Suc t
        by (subst (1 2) shiftRight.simps) (simp add: insertLast_snoc upd_conv_take_nth_drop)
    qed
  qed
qed


lemma set_insertRev: "set (insertRev state key xs) = insert key (set xs)"
  by (induction xs) auto

lemma mset_insertRev: "mset (insertRev state key xs) = add_mset key (mset xs)"
  by (induction xs) auto

lemma sorted_insertRev:
  "sorted_wrt (\<lambda>a b. LastUsed (accountAt state b) \<le> LastUsed (accountAt state a)) xs \<Longrightarrow>
   sorted_wrt (\<lambda>a b. LastUsed (accountAt state b) \<le> LastUsed (accountAt state a))
     (insertRev state key xs)"
  by (induction xs) (auto simp: set_insertRev)

lemma mset_insertLast: "mset (insertLast state key p) = add_mset key (mset p)"
  by (simp add: insertLast_def mset_insertRev)

lemma length_insertLast: "length (insertLast state key p) = Suc (length p)"
  using mset_insertLast [of state key p] by (metis size_add_mset size_mset)

lemma sorted_insertLast:
  "sorted_wrt (\<lambda>a b. LastUsed (accountAt state a) \<le> LastUsed (accountAt state b)) p \<Longrightarrow>
   sorted_wrt (\<lambda>a b. LastUsed (accountAt state a) \<le> LastUsed (accountAt state b))
     (insertLast state key p)"
  using sorted_insertRev [of state "rev p" key]
  by (simp add: insertLast_def sorted_wrt_rev)

lemma sortFrom_sorted_mset:
  "sorted_wrt (\<lambda>a b. LastUsed (accountAt state a) \<le> LastUsed (accountAt state b)) (take i hs) \<Longrightarrow>
   sorted_wrt (\<lambda>a b. LastUsed (accountAt state a) \<le> LastUsed (accountAt state b)) (sortFrom state hs i)
   \<and> mset (sortFrom state hs i) = mset hs"
proof (induction state hs i rule: sortFrom.induct)
  case (1 state handles i)
  show ?case
  proof (cases "i < length handles")
    case False
    then show ?thesis using "1.prems" by (subst (1 2) sortFrom.simps) simp
  next
    case True
    define hs' where
      "hs' = (fst (shiftRight state handles (handles ! i) (int i - 1)))
               [nat (snd (shiftRight state handles (handles ! i) (int i - 1)) + 1) := handles ! i]"
    have eq: "hs' = insertLast state (handles ! i) (take i handles) @ drop (Suc i) handles"
      unfolding hs'_def using shiftRight_insert [OF True refl] .
    have tk: "take (i + 1) hs' = insertLast state (handles ! i) (take i handles)"
      using True by (simp add: eq length_insertLast)
    have ms: "mset hs' = mset handles"
    proof -
      have "mset handles = mset (take i handles @ handles ! i # drop (Suc i) handles)"
        using True by (simp add: id_take_nth_drop [symmetric])
      then show ?thesis by (simp add: eq mset_insertLast)
    qed
    have srt: "sorted_wrt (\<lambda>a b. LastUsed (accountAt state a) \<le> LastUsed (accountAt state b))
                 (take (i + 1) hs')"
      unfolding tk using "1.prems" by (rule sorted_insertLast)
    have step: "sortFrom state handles i = sortFrom state hs' (i + 1)"
      using True by (subst sortFrom.simps) (simp add: hs'_def Let_def)
    have IH: "sorted_wrt (\<lambda>a b. LastUsed (accountAt state a) \<le> LastUsed (accountAt state b))
                (sortFrom state hs' (i + 1)) \<and> mset (sortFrom state hs' (i + 1)) = mset hs'"
      using "1.IH" [OF True refl refl] srt unfolding hs'_def by simp
    show ?thesis using IH ms step by simp
  qed
qed

lemma sortByLastUsed_sorted_mset:
  "sorted_wrt (\<lambda>a b. LastUsed (accountAt state a) \<le> LastUsed (accountAt state b))
     (sortByLastUsed hs state)
   \<and> mset (sortByLastUsed hs state) = mset hs"
  unfolding sortByLastUsed_def
  by (rule sortFrom_sorted_mset) (cases hs; simp)

lemma collectAvailable_filter:
  "collectAvailable state ks acc =
     acc @ filter (\<lambda>h. Status (accountAt state h) = QuotaStatusAvailable \<or> Status (accountAt state h) = []) ks"
  by (induction ks arbitrary: acc) (simp_all add: Let_def)

text \<open>
  C5. \<open>AvailableAccounts\<close> returns, each once, exactly the handles of the state whose
  status is \<open>available\<close> or empty, in ascending order of \<open>lastUsed\<close> (the order of Go on
  strings); the handles with an empty \<open>lastUsed\<close> stand before all others. This holds for
  every order in which the runtime ranges over the map.
\<close>

theorem AvailableAccounts_least_recently_used_first:
  assumes "rangeOrder state ks"
  shows "set (AvailableAccounts ks state) =
           {h \<in> keysOf state. Status (accountAt state h) = QuotaStatusAvailable \<or> Status (accountAt state h) = []}
         \<and> distinct (AvailableAccounts ks state)
         \<and> sorted_wrt (\<lambda>a b. LastUsed (accountAt state a) \<le> LastUsed (accountAt state b))
             (AvailableAccounts ks state)
         \<and> (\<forall>i j. i < j \<and> j < length (AvailableAccounts ks state)
                \<and> LastUsed (accountAt state (AvailableAccounts ks state ! j)) = []
              \<longrightarrow> LastUsed (accountAt state (AvailableAccounts ks state ! i)) = [])"
proof -
  let ?P = "\<lambda>h. Status (accountAt state h) = QuotaStatusAvailable \<or> Status (accountAt state h) = []"
  let ?r = "AvailableAccounts ks state"
  have ms: "mset ?r = mset (filter ?P ks)"
    using sortByLastUsed_sorted_mset [of state "collectAvailable state ks []"]
    by (simp add: AvailableAccounts_def collectAvailable_filter)
  have srt: "sorted_wrt (\<lambda>a b. LastUsed (accountAt state a) \<le> LastUsed (accountAt state b)) ?r"
    using sortByLastUsed_sorted_mset [of state "collectAvailable state ks []"]
    by (simp add: AvailableAccounts_def)
  have s: "set ?r = {h \<in> keysOf state. ?P h}"
    using mset_eq_setD [OF ms] assms by (auto simp: rangeOrder_def)
  have d: "distinct ?r"
    using ms assms by (metis distinct_filter mset_eq_imp_distinct_iff rangeOrder_def)
  have e: "\<forall>i j. i < j \<and> j < length ?r \<and> LastUsed (accountAt state (?r ! j)) = []
              \<longrightarrow> LastUsed (accountAt state (?r ! i)) = []"
  proof (intro allI impI)
    fix i j
    assume a: "i < j \<and> j < length ?r \<and> LastUsed (accountAt state (?r ! j)) = []"
    have "LastUsed (accountAt state (?r ! i)) \<le> LastUsed (accountAt state (?r ! j))"
      using srt a sorted_wrt_iff_nth_less
        [of "\<lambda>a b. LastUsed (accountAt state a) \<le> LastUsed (accountAt state b)" ?r]
      by blast
    then show "LastUsed (accountAt state (?r ! i)) = []"
      using a by simp
  qed
  show ?thesis using s d srt e by blast
qed

lemma AvailableAccounts_test: "AvailableAccounts [''b'', ''a'', ''d'', ''c''] availableState = [''c'', ''d'', ''a'']"
  by code_simp

theorem AvailableAccounts_least_recently_used_first_witness:
  "rangeOrder availableState [''b'', ''a'', ''d'', ''c'']
   \<and> AvailableAccounts [''b'', ''a'', ''d'', ''c''] availableState = [''c'', ''d'', ''a'']
   \<and> {h \<in> keysOf availableState.
        Status (accountAt availableState h) = QuotaStatusAvailable \<or> Status (accountAt availableState h) = []}
      = {''c'', ''d'', ''a''}
   \<and> sorted_wrt (\<lambda>a b. LastUsed (accountAt availableState a) \<le> LastUsed (accountAt availableState b))
        [''c'', ''d'', ''a'']"
proof -
  have r: "rangeOrder availableState [''b'', ''a'', ''d'', ''c'']"
    by (auto simp: rangeOrder_def keysOf_def availableState_def)
  show ?thesis
    using AvailableAccounts_least_recently_used_first [OF r] r AvailableAccounts_test by simp
qed

section \<open>The grammar: groups, scanning and dates\<close>

lemma isDigit_bounds: "isDigit c \<Longrightarrow> 0 \<le> digitValue c \<and> digitValue c \<le> 9"
  by (auto simp: isDigit_def digitValue_def less_eq_char_def)

lemma isDigit_not_sign: "isDigit c \<Longrightarrow> c \<noteq> CHR ''-'' \<and> c \<noteq> CHR ''+''"
  by (auto simp: isDigit_def less_eq_char_def)

lemma hourGroup_Some:
  "hourGroup s = Some (m1, r) \<Longrightarrow>
     s = m1 @ r \<and> m1 \<noteq> [] \<and> length m1 \<le> 2 \<and> (\<forall>c \<in> set m1. isDigit c)"
  by (cases s rule: hourGroup.cases) (auto split: if_splits)

lemma minuteGroup_cases:
  "minuteGroup s = (m2, r) \<Longrightarrow>
     (m2 = [] \<and> r = s) \<or> (length m2 = 2 \<and> (\<forall>c \<in> set m2. isDigit c) \<and> s = CHR '':'' # m2 @ r)"
  by (cases s rule: minuteGroup.cases) (auto split: if_splits)

lemma meridiemGroup_Some:
  "meridiemGroup s = Some m3 \<Longrightarrow> ToLower m3 = ''am'' \<or> ToLower m3 = ''pm''"
  by (cases s rule: meridiemGroup.cases) (auto simp: ToLower_def split: if_splits)

lemma FindStringSubmatch_Some:
  assumes "FindStringSubmatch s = Some (m1, m2, m3)"
  shows "m1 \<noteq> [] \<and> length m1 \<le> 2 \<and> (\<forall>c \<in> set m1. isDigit c)
         \<and> (m2 = [] \<or> length m2 = 2) \<and> (\<forall>c \<in> set m2. isDigit c)
         \<and> (ToLower m3 = ''am'' \<or> ToLower m3 = ''pm'')"
proof -
  obtain r1 where h: "hourGroup s = Some (m1, r1)"
    using assms by (auto simp: FindStringSubmatch_def split: option.splits prod.splits)
  obtain r2 where m: "minuteGroup r1 = (m2, r2)"
    and g: "meridiemGroup (dropWhile isPatternSpace r2) = Some m3"
    using assms h by (auto simp: FindStringSubmatch_def split: option.splits prod.splits)
  show ?thesis
    using hourGroup_Some [OF h] minuteGroup_cases [OF m] meridiemGroup_Some [OF g] by auto
qed

lemma Sscanf_d_digits:
  assumes "ds \<noteq> []" "\<forall>c \<in> set ds. isDigit c"
  shows "Sscanf_d ds = Some (decimal ds)"
proof -
  obtain c cs where ds: "ds = c # cs" using assms(1) by (cases ds) auto
  have t: "takeWhile isDigit cs = cs" using assms(2) ds by (simp add: takeWhile_eq_all_conv)
  show ?thesis
    using isDigit_not_sign [of c] assms(2) unfolding Sscanf_d_def ds by (simp add: t)
qed

lemma decimal_bounds:
  assumes "length ds \<le> 2" "\<forall>c \<in> set ds. isDigit c"
  shows "0 \<le> decimal ds \<and> decimal ds \<le> 99"
proof (cases ds)
  case Nil
  then show ?thesis by (simp add: decimal_def)
next
  case (Cons a as)
  show ?thesis
  proof (cases as)
    case Nil
    then show ?thesis using Cons assms isDigit_bounds [of a] by (simp add: decimal_def)
  next
    case (Cons b bs)
    then have "bs = []" using assms \<open>ds = a # as\<close> by simp
    then show ?thesis
      using Cons \<open>ds = a # as\<close> assms isDigit_bounds [of a] isDigit_bounds [of b]
      by (simp add: decimal_def)
  qed
qed

lemma ParseResetTime_match:
  assumes "splitZone LoadLocation (location reference) (TrimSpace resetsAt) = (loc, rest)"
    and "FindStringSubmatch rest = Some (m1, m2, m3)"
  shows "ParseResetTime LoadLocation resetsAt reference =
           Inr (Date ((unixSec reference + fst (lookup loc (unixSec reference))) div 86400)
                  (meridiemHour (ToLower m3) (decimal m1)) (decimal m2) 0 0 loc)"
proof -
  have f: "m1 \<noteq> []" "\<forall>c \<in> set m1. isDigit c" "\<forall>c \<in> set m2. isDigit c"
    using FindStringSubmatch_Some [OF assms(2)] by auto
  have h: "Sscanf_d m1 = Some (decimal m1)" using Sscanf_d_digits f by simp
  have m: "m2 \<noteq> [] \<Longrightarrow> Sscanf_d m2 = Some (decimal m2)" using Sscanf_d_digits f by simp
  show ?thesis
    using assms h m
    by (cases "m2 = []")
      (simp_all add: ParseResetTime_def resetFromMatch_def Let_def decimal_def localDay_def
        localSec_def In_def)
qed


lemma location_Date: "location (Date day hour minute sec ns loc) = loc"
  by (simp add: Date_def Let_def split: prod.splits)

lemma nsec_Date: "nsec (Date day hour minute 0 0 loc) = 0"
  by (simp add: Date_def Let_def split: prod.splits)

lemma Date_steady:
  assumes "steady loc (day * 86400 + hour * 3600 + minute * 60)"
  shows "localSec (Date day hour minute 0 0 loc) = day * 86400 + hour * 3600 + minute * 60"
proof -
  define w where "w = day * 86400 + hour * 3600 + minute * 60"
  obtain off s e where l: "lookup loc w = (off, s, e)" by (cases "lookup loc w") auto
  have st: "fst (lookup loc (w - off)) = off"
    using assms l by (simp add: steady_def w_def)
  have d: "Date day hour minute 0 0 loc =
             \<lparr>unixSec = (if off \<noteq> 0
                         then w - (if w - off < s \<or> w - off \<ge> e then fst (lookup loc (w - off)) else off)
                         else w),
              nsec = 0, location = loc\<rparr>"
    using l by (simp add: Date_def Let_def w_def)
  have u: "unixSec (Date day hour minute 0 0 loc) = w - off"
    unfolding d using st by simp
  show ?thesis
    using u st by (simp add: localSec_def location_Date w_def)
qed

lemma Date_same_day:
  assumes "0 \<le> hour" "hour \<le> 23" "0 \<le> minute" "minute \<le> 59"
    and "steady loc (day * 86400 + hour * 3600 + minute * 60)"
  shows "localDay (Date day hour minute 0 0 loc) = day
         \<and> Hour (Date day hour minute 0 0 loc) = hour
         \<and> Minute (Date day hour minute 0 0 loc) = minute"
proof -
  define r where "r = hour * 3600 + minute * 60"
  have r: "0 \<le> r" "r < 86400" using assms by (auto simp: r_def)
  have s: "localSec (Date day hour minute 0 0 loc) = r + day * 86400"
    using Date_steady [OF assms(5)] by (simp add: r_def)
  have d: "(r + day * 86400) div 86400 = day" using r by simp
  have m: "(r + day * 86400) mod 86400 = r" using r by simp
  have h: "r div 3600 = hour" using assms by (simp add: r_def)
  have e: "r + day * 86400 = minute * 60 + (hour + day * 24) * 3600"
    by (simp add: r_def algebra_simps)
  have "(minute * 60 + (hour + day * 24) * 3600) mod 3600 = (minute * 60) mod 3600"
    by (rule mod_mult_self1)
  then have "(r + day * 86400) mod 3600 = minute * 60"
    using assms by (simp only: e) simp
  then have mi: "((r + day * 86400) mod 3600) div 60 = minute"
    by simp
  show ?thesis unfolding localDay_def Hour_def Minute_def s using d m h mi by simp
qed

lemma Date_later_day:
  assumes "24 \<le> hour" "0 \<le> minute"
    and "steady loc (day * 86400 + hour * 3600 + minute * 60)"
  shows "day < localDay (Date day hour minute 0 0 loc)"
proof -
  define r where "r = (hour - 24) * 3600 + minute * 60"
  have r: "0 \<le> r" using assms by (simp add: r_def)
  have e: "day * 86400 + hour * 3600 + minute * 60 = r + (day + 1) * 86400"
    by (simp add: r_def algebra_simps)
  have "(r + (day + 1) * 86400) div 86400 = r div 86400 + (day + 1)"
    by simp
  moreover have "0 \<le> r div 86400" using r by simp
  ultimately show ?thesis by (simp add: localDay_def Date_steady [OF assms(3)] e)
qed


lemma spaceRunes_hd:
  "x \<in> set spaceRunes2 \<union> set spaceRunes3 \<Longrightarrow> hd x \<in> {CHR 0xC2, CHR 0xE1, CHR 0xE2, CHR 0xE3}"
  unfolding spaceRunes2_def spaceRunes3_def by auto

lemma spaceRunes_last:
  "x \<in> set spaceRunes2 \<union> set spaceRunes3 \<Longrightarrow> last x \<notin> {CHR ''m'', CHR ''M'', CHR '')''}"
  unfolding spaceRunes2_def spaceRunes3_def by auto

lemma isDigit_ascii:
  "isDigit c \<Longrightarrow> c \<notin> set asciiSpace \<and> c \<notin> {CHR 0xC2, CHR 0xE1, CHR 0xE2, CHR 0xE3}"
  by (auto simp: isDigit_def less_eq_char_def asciiSpace_def)

lemma TrimLeftSpace_digit:
  assumes "isDigit c"
  shows "TrimLeftSpace (c # cs) = c # cs"
proof -
  have a: "c \<notin> set asciiSpace" and n: "c \<notin> {CHR 0xC2, CHR 0xE1, CHR 0xE2, CHR 0xE3}"
    using isDigit_ascii [OF assms] by simp_all
  have b2: "take 2 (c # cs) \<notin> set spaceRunes2"
  proof
    assume "take 2 (c # cs) \<in> set spaceRunes2"
    then have "hd (take 2 (c # cs)) \<in> {CHR 0xC2, CHR 0xE1, CHR 0xE2, CHR 0xE3}"
      by (intro spaceRunes_hd) simp
    then show False using n by simp
  qed
  have b3: "take 3 (c # cs) \<notin> set spaceRunes3"
  proof
    assume "take 3 (c # cs) \<in> set spaceRunes3"
    then have "hd (take 3 (c # cs)) \<in> {CHR 0xC2, CHR 0xE1, CHR 0xE2, CHR 0xE3}"
      by (intro spaceRunes_hd) simp
    then show False using n by simp
  qed
  show ?thesis
    by (subst TrimLeftSpace.simps) (simp only: a b2 b3 if_False)
qed

lemma dropSpaceRev_m:
  assumes "m \<in> {CHR ''m'', CHR ''M'', CHR '')''}"
  shows "dropSpaceRev (m # cs) = m # cs"
proof -
  have a: "m \<notin> set asciiSpace" using assms by (auto simp: asciiSpace_def)
  have b2: "rev (take 2 (m # cs)) \<notin> set spaceRunes2"
  proof
    assume "rev (take 2 (m # cs)) \<in> set spaceRunes2"
    then have "last (rev (take 2 (m # cs))) \<notin> {CHR ''m'', CHR ''M'', CHR '')''}"
      by (intro spaceRunes_last) simp
    then show False using assms by (simp add: last_rev)
  qed
  have b3: "rev (take 3 (m # cs)) \<notin> set spaceRunes3"
  proof
    assume "rev (take 3 (m # cs)) \<in> set spaceRunes3"
    then have "last (rev (take 3 (m # cs))) \<notin> {CHR ''m'', CHR ''M'', CHR '')''}"
      by (intro spaceRunes_last) simp
    then show False using assms by (simp add: last_rev)
  qed
  show ?thesis
    by (subst dropSpaceRev.simps) (simp only: a b2 b3 if_False)
qed

lemma lowerByte_m: "lowerByte c = CHR ''m'' \<Longrightarrow> c = CHR ''m'' \<or> c = CHR ''M''"
  by (cases c) (auto simp: lowerByte_def split: if_splits)

lemma lowerByte_a: "lowerByte c = CHR ''a'' \<Longrightarrow> c = CHR ''a'' \<or> c = CHR ''A''"
  by (cases c) (auto simp: lowerByte_def split: if_splits)

lemma lowerByte_p: "lowerByte c = CHR ''p'' \<Longrightarrow> c = CHR ''p'' \<or> c = CHR ''P''"
  by (cases c) (auto simp: lowerByte_def split: if_splits)

lemma meridiem_shape:
  assumes "ToLower mer = ''am'' \<or> ToLower mer = ''pm''"
  shows "\<exists>a m. mer = [a, m] \<and> a \<in> {CHR ''a'', CHR ''A'', CHR ''p'', CHR ''P''}
           \<and> m \<in> {CHR ''m'', CHR ''M''}"
proof -
  obtain a m where mer: "mer = [a, m]"
    using assms by (auto simp: ToLower_def)
  then have "lowerByte a = CHR ''a'' \<or> lowerByte a = CHR ''p''" "lowerByte m = CHR ''m''"
    using assms by (auto simp: ToLower_def)
  then show ?thesis using mer lowerByte_a lowerByte_p lowerByte_m by blast
qed

lemma Index_absent: "c \<notin> set s \<Longrightarrow> Index s c = - 1"
  by (induction s) (auto simp: Let_def)

lemma isDigit_not_paren: "isDigit c \<Longrightarrow> c \<noteq> CHR ''(''"
  by (auto simp: isDigit_def less_eq_char_def)

lemma plain_time_untouched:
  assumes "hs \<noteq> []" "\<forall>c \<in> set hs. isDigit c"
    "mer = [a, m]" "a \<in> {CHR ''a'', CHR ''A'', CHR ''p'', CHR ''P''}" "m \<in> {CHR ''m'', CHR ''M''}"
  shows "splitZone LoadLocation loc (TrimSpace (hs @ mer)) = (loc, hs @ mer)"
proof -
  obtain c cs where hs: "hs = c # cs" using assms(1) by (cases hs) auto
  have l: "TrimLeftSpace (hs @ mer) = hs @ mer"
    using assms(2) TrimLeftSpace_digit [of c "cs @ mer"] unfolding hs
    by (simp del: TrimLeftSpace.simps)
  have m': "m \<in> {CHR ''m'', CHR ''M'', CHR '')''}" using assms(5) by auto
  have r: "TrimRightSpace (hs @ mer) = hs @ mer"
    using dropSpaceRev_m [OF m', of "a # rev hs"]
    by (simp add: TrimRightSpace_def assms(3) del: dropSpaceRev.simps)
  have "CHR ''('' \<notin> set (hs @ mer)"
    using assms isDigit_not_paren by auto
  then have i: "Index (hs @ mer) CHR ''('' = - 1" by (rule Index_absent)
  show ?thesis by (simp add: splitZone_def TrimSpace_def l r i)
qed

lemma plain_time_match:
  assumes "hs \<noteq> []" "length hs \<le> 2" "\<forall>c \<in> set hs. isDigit c"
    "mer = [a, m]" "a \<in> {CHR ''a'', CHR ''A'', CHR ''p'', CHR ''P''}" "m \<in> {CHR ''m'', CHR ''M''}"
  shows "FindStringSubmatch (hs @ mer) = Some (hs, [], mer)"
proof -
  have na: "\<not> isDigit a" "\<not> isPatternSpace a" "lowerByte a \<in> set [CHR ''a'', CHR ''p'']"
    using assms(5) by (auto simp: isDigit_def isPatternSpace_def lowerByte_def less_eq_char_def)
  have m: "lowerByte m = CHR ''m''" using assms(6) by (auto simp: lowerByte_def)
  obtain c cs where hs: "hs = c # cs" using assms(1) by (cases hs) auto
  show ?thesis
  proof (cases cs)
    case Nil
    then show ?thesis using assms(3,4) na m hs by (simp add: FindStringSubmatch_def)
  next
    case (Cons d ds)
    then have "ds = []" using assms(2) hs by simp
    then show ?thesis using assms(3,4) na m hs Cons by (simp add: FindStringSubmatch_def)
  qed
qed

lemma Index_first: "c \<notin> set xs \<Longrightarrow> Index (xs @ c # ys) c = int (length xs)"
  by (induction xs) (auto simp: Let_def)

lemma splitZone_zone:
  assumes "CHR ''('' \<notin> set body" "CHR '')'' \<notin> set body" "CHR '')'' \<notin> set name"
  shows "splitZone LoadLocation loc (body @ CHR ''('' # name @ CHR '')'' # tail) =
           (case LoadLocation (TrimSpace name) of None \<Rightarrow> loc | Some parsed \<Rightarrow> parsed,
            TrimSpace body)"
proof -
  let ?s = "body @ CHR ''('' # name @ CHR '')'' # tail"
  have i: "Index ?s CHR ''('' = int (length body)"
    using assms(1) by (rule Index_first)
  have "CHR '')'' \<notin> set (body @ CHR ''('' # name)" using assms by simp
  then have "Index ((body @ CHR ''('' # name) @ CHR '')'' # tail) CHR '')''
               = int (length (body @ CHR ''('' # name))"
    by (rule Index_first)
  then have e: "Index ?s CHR '')'' = int (length body) + 1 + int (length name)"
    by simp
  have n: "take (nat (int (length body) + 1 + int (length name) - int (length body) - 1))
             (drop (nat (int (length body) + 1)) ?s) = name"
    by (simp add: nat_add_distrib)
  have b: "take (nat (int (length body))) ?s = body" by simp
  show ?thesis
    unfolding splitZone_def i e Let_def n b by simp
qed

lemma isDigit_not_parens: "isDigit c \<Longrightarrow> c \<noteq> CHR ''('' \<and> c \<noteq> CHR '')''"
  by (auto simp: isDigit_def less_eq_char_def)

lemma zoned_time_split:
  assumes "hs \<noteq> []" "\<forall>c \<in> set hs. isDigit c"
    "mer = [a, m]" "a \<in> {CHR ''a'', CHR ''A'', CHR ''p'', CHR ''P''}" "m \<in> {CHR ''m'', CHR ''M''}"
    "CHR '')'' \<notin> set name"
  shows "splitZone LoadLocation loc (TrimSpace (hs @ mer @ '' ('' @ name @ '')'')) =
           (case LoadLocation (TrimSpace name) of None \<Rightarrow> loc | Some parsed \<Rightarrow> parsed,
            hs @ mer)"
proof -
  let ?s = "hs @ mer @ '' ('' @ name @ '')''"
  obtain c cs where hs: "hs = c # cs" using assms(1) by (cases hs) auto
  have l: "TrimLeftSpace ?s = ?s"
    using assms(2) TrimLeftSpace_digit [of c "cs @ mer @ '' ('' @ name @ '')''"] unfolding hs
    by (simp del: TrimLeftSpace.simps)
  have "dropSpaceRev (CHR '')'' # rev (hs @ mer @ '' ('' @ name)) = CHR '')'' # rev (hs @ mer @ '' ('' @ name)"
    by (rule dropSpaceRev_m) simp
  then have r: "TrimRightSpace ?s = ?s"
    by (simp add: TrimRightSpace_def del: dropSpaceRev.simps)
  have t: "TrimSpace ?s = (hs @ mer @ '' '') @ CHR ''('' # name @ CHR '')'' # []"
    unfolding TrimSpace_def l r by simp
  have p: "CHR ''('' \<notin> set (hs @ mer @ '' '')" "CHR '')'' \<notin> set (hs @ mer @ '' '')"
    using assms isDigit_not_parens by auto
  have bl: "TrimLeftSpace (hs @ mer @ '' '') = hs @ mer @ '' ''"
    using assms(2) TrimLeftSpace_digit [of c "cs @ mer @ '' ''"] unfolding hs
    by (simp del: TrimLeftSpace.simps)
  have m': "m \<in> {CHR ''m'', CHR ''M'', CHR '')''}" using assms(5) by auto
  have "dropSpaceRev (CHR 0x20 # m # a # rev hs) = dropSpaceRev (m # a # rev hs)"
    by (subst dropSpaceRev.simps) (simp add: asciiSpace_def)
  then have br: "TrimRightSpace (hs @ mer @ '' '') = hs @ mer"
    using dropSpaceRev_m [OF m', of "a # rev hs"]
    by (simp add: TrimRightSpace_def assms(3) del: dropSpaceRev.simps)
  have b: "TrimSpace (hs @ mer @ '' '') = hs @ mer"
    unfolding TrimSpace_def bl br by simp
  show ?thesis
    unfolding t using splitZone_zone [OF p assms(6), of LoadLocation loc "[]"] b by simp
qed

lemma zoned_time_parse:
  assumes "hs \<noteq> []" "length hs \<le> 2" "\<forall>c \<in> set hs. isDigit c"
    "ToLower mer = ''am'' \<or> ToLower mer = ''pm''" "CHR '')'' \<notin> set name"
    "zone = (case LoadLocation (TrimSpace name) of None \<Rightarrow> location reference | Some parsed \<Rightarrow> parsed)"
  shows "ParseResetTime LoadLocation (hs @ mer @ '' ('' @ name @ '')'') reference =
           Inr (Date ((unixSec reference + fst (lookup zone (unixSec reference))) div 86400)
                  (meridiemHour (ToLower mer) (decimal hs)) 0 0 0 zone)"
proof -
  obtain x m where mer: "mer = [x, m]" "x \<in> {CHR ''a'', CHR ''A'', CHR ''p'', CHR ''P''}"
    "m \<in> {CHR ''m'', CHR ''M''}"
    using meridiem_shape [OF assms(4)] by blast
  have s: "splitZone LoadLocation (location reference) (TrimSpace (hs @ mer @ '' ('' @ name @ '')''))
             = (zone, hs @ mer)"
    using zoned_time_split [OF assms(1) assms(3) mer assms(5)] assms(6) by simp
  have f: "FindStringSubmatch (hs @ mer) = Some (hs, [], mer)"
    using plain_time_match [OF assms(1-3) mer] .
  show ?thesis
    using ParseResetTime_match [OF s f] by (simp add: decimal_def)
qed

section \<open>ClearExpired\<close>

lemma clearOne_eq:
  "clearOne tz now h (m, c) =
     (m(h := map_option (swept tz now) (m h)),
      c + (if (case m h of None \<Rightarrow> False | Some a \<Rightarrow> resetPassed tz now a) then 1 else 0))"
  by (auto simp: clearOne_def resetPassed_def swept_def madeAvailable_def
      split: option.splits sum.splits)

lemma clearLoop_eq:
  "distinct ks \<Longrightarrow>
   clearLoop tz now ks (m, c) =
     ((\<lambda>h. if h \<in> set ks then map_option (swept tz now) (m h) else m h),
      c + int (length (filter (\<lambda>h. case m h of None \<Rightarrow> False | Some a \<Rightarrow> resetPassed tz now a) ks)))"
proof (induction ks arbitrary: m c)
  case Nil
  then show ?case by simp
next
  case (Cons k ks)
  let ?m1 = "m(k := map_option (swept tz now) (m k))"
  have same: "\<And>h. h \<in> set ks \<Longrightarrow> ?m1 h = m h" using Cons.prems by auto
  have f: "filter (\<lambda>h. case ?m1 h of None \<Rightarrow> False | Some a \<Rightarrow> resetPassed tz now a) ks
           = filter (\<lambda>h. case m h of None \<Rightarrow> False | Some a \<Rightarrow> resetPassed tz now a) ks"
    using Cons.prems by (intro filter_cong) auto
  have g: "(\<lambda>h. if h \<in> set ks then map_option (swept tz now) (?m1 h) else ?m1 h)
           = (\<lambda>h. if h \<in> set (k # ks) then map_option (swept tz now) (m h) else m h)"
    using Cons.prems by (auto simp: fun_eq_iff)
  have d: "distinct ks" using Cons.prems by simp
  show ?case
    unfolding clearLoop.simps clearOne_eq Cons.IH [OF d] f g by simp
qed

text \<open>
  C2. For every state, every reference time and every order of the iteration,
  \<open>clearExpiredAt\<close> keeps the set of accounts; it replaces by an available entry with the
  same \<open>lastUsed\<close> exactly the accounts that are limited, have a \<open>resetsAt\<close> that is not
  empty and parses, and whose parsed instant is before \<open>now\<close>; every other account
  (limited with an empty or unparseable \<open>resetsAt\<close>, or not limited) is as it was; and
  the number returned is the number of accounts replaced. The result is a state and a
  number: there is no error to raise. The parsed instant is that of the grammar: for a
  limited account whose \<open>resetsAt\<close> is an hour of one or two digits, a meridiem and the
  name of a zone that the database knows in parentheses, the account is replaced exactly
  when \<open>now\<close> is later than the instant that \<open>time.Date\<close> gives for that hour of the day
  on the date which \<open>now\<close> has in the named zone.
\<close>

theorem clearExpiredAt_sweeps_exactly_expired:
  assumes "rangeOrder state ks"
  shows "keysOf (fst (clearExpiredAt LoadLocation ks state now)) = keysOf state
     \<and> (\<forall>h \<in> keysOf state.
           accountAt (fst (clearExpiredAt LoadLocation ks state now)) h =
             (if resetPassed LoadLocation now (accountAt state h)
              then \<lparr>Status = QuotaStatusAvailable, LimitedAt = [], ResetsAt = [],
                    LastUsed = LastUsed (accountAt state h)\<rparr>
              else accountAt state h))
     \<and> snd (clearExpiredAt LoadLocation ks state now)
         = int (card {h \<in> keysOf state. resetPassed LoadLocation now (accountAt state h)})
     \<and> Version (fst (clearExpiredAt LoadLocation ks state now)) = Version state
     \<and> (\<forall>a hs mer name zone.
           Status a = QuotaStatusLimited \<and> ResetsAt a = hs @ mer @ '' ('' @ name @ '')''
           \<and> hs \<noteq> [] \<and> length hs \<le> 2 \<and> (\<forall>c \<in> set hs. isDigit c)
           \<and> (ToLower mer = ''am'' \<or> ToLower mer = ''pm'') \<and> CHR '')'' \<notin> set name
           \<and> LoadLocation (TrimSpace name) = Some zone \<longrightarrow>
           (let due = Date ((unixSec now + fst (lookup zone (unixSec now))) div 86400)
                        (meridiemHour (ToLower mer) (decimal hs)) 0 0 0 zone
            in resetPassed LoadLocation now a =
                 (unixSec due < unixSec now \<or> (unixSec due = unixSec now \<and> 0 < nsec now))))"
proof -
  have sweep: "keysOf (fst (clearExpiredAt LoadLocation ks state now)) = keysOf state
     \<and> (\<forall>h \<in> keysOf state.
           accountAt (fst (clearExpiredAt LoadLocation ks state now)) h =
             (if resetPassed LoadLocation now (accountAt state h)
              then \<lparr>Status = QuotaStatusAvailable, LimitedAt = [], ResetsAt = [],
                    LastUsed = LastUsed (accountAt state h)\<rparr>
              else accountAt state h))
     \<and> snd (clearExpiredAt LoadLocation ks state now)
         = int (card {h \<in> keysOf state. resetPassed LoadLocation now (accountAt state h)})
     \<and> Version (fst (clearExpiredAt LoadLocation ks state now)) = Version state"
  proof (cases "Accounts state")
    case None
    then show ?thesis by (simp add: clearExpiredAt_def keysOf_def)
  next
    case (Some m)
    have d: "distinct ks" and k: "set ks = dom m"
      using assms Some by (simp_all add: rangeOrder_def keysOf_def)
    let ?due = "\<lambda>h. case m h of None \<Rightarrow> False | Some a \<Rightarrow> resetPassed LoadLocation now a"
    have r: "clearExpiredAt LoadLocation ks state now =
              (state\<lparr>Accounts := Some (\<lambda>h. if h \<in> set ks then map_option (swept LoadLocation now) (m h) else m h)\<rparr>,
               int (length (filter ?due ks)))"
      by (simp add: clearExpiredAt_def Some clearLoop_eq [OF d] Let_def)
    have c: "length (filter ?due ks) = card {h \<in> keysOf state. resetPassed LoadLocation now (accountAt state h)}"
    proof -
      have "{h \<in> keysOf state. resetPassed LoadLocation now (accountAt state h)} = set (filter ?due ks)"
        using k Some by (auto simp: keysOf_def accountAt_def valueAt_def split: option.splits)
      then show ?thesis using distinct_card [of "filter ?due ks"] d by simp
    qed
    have dm: "dom (\<lambda>h. if h \<in> set ks then map_option (swept LoadLocation now) (m h) else m h) = dom m"
      by (auto simp: dom_def split: if_splits)
    show ?thesis
      unfolding r using c k Some dm
      by (auto simp: keysOf_def accountAt_def valueAt_def swept_def madeAvailable_def
          split: option.splits)
  qed
  have zoned: "\<forall>a hs mer name zone.
           Status a = QuotaStatusLimited \<and> ResetsAt a = hs @ mer @ '' ('' @ name @ '')''
           \<and> hs \<noteq> [] \<and> length hs \<le> 2 \<and> (\<forall>c \<in> set hs. isDigit c)
           \<and> (ToLower mer = ''am'' \<or> ToLower mer = ''pm'') \<and> CHR '')'' \<notin> set name
           \<and> LoadLocation (TrimSpace name) = Some zone \<longrightarrow>
           (let due = Date ((unixSec now + fst (lookup zone (unixSec now))) div 86400)
                        (meridiemHour (ToLower mer) (decimal hs)) 0 0 0 zone
            in resetPassed LoadLocation now a =
                 (unixSec due < unixSec now \<or> (unixSec due = unixSec now \<and> 0 < nsec now)))"
  proof (intro allI impI)
    fix a :: AccountQuotaState and hs mer name zone
    assume h: "Status a = QuotaStatusLimited \<and> ResetsAt a = hs @ mer @ '' ('' @ name @ '')''
           \<and> hs \<noteq> [] \<and> length hs \<le> 2 \<and> (\<forall>c \<in> set hs. isDigit c)
           \<and> (ToLower mer = ''am'' \<or> ToLower mer = ''pm'') \<and> CHR '')'' \<notin> set name
           \<and> LoadLocation (TrimSpace name) = Some zone"
    let ?due = "Date ((unixSec now + fst (lookup zone (unixSec now))) div 86400)
                        (meridiemHour (ToLower mer) (decimal hs)) 0 0 0 zone"
    have z: "zone = (case LoadLocation (TrimSpace name) of None \<Rightarrow> location now | Some parsed \<Rightarrow> parsed)"
      using h by simp
    have h1: "hs \<noteq> []" and h2: "length hs \<le> 2" and h3: "\<forall>c \<in> set hs. isDigit c"
      and h4: "ToLower mer = ''am'' \<or> ToLower mer = ''pm''" and h5: "CHR '')'' \<notin> set name"
      and ra: "ResetsAt a = hs @ mer @ '' ('' @ name @ '')''"
      using h by blast+
    have p: "ParseResetTime LoadLocation (ResetsAt a) now = Inr ?due"
      unfolding ra using h1 h2 h3 h4 h5 z by (rule zoned_time_parse)
    have n: "ResetsAt a \<noteq> []" using h1 ra by simp
    have "resetPassed LoadLocation now a = After now ?due"
      using h n p by (simp add: resetPassed_def)
    then show "let due = ?due
            in resetPassed LoadLocation now a =
                 (unixSec due < unixSec now \<or> (unixSec due = unixSec now \<and> 0 < nsec now))"
      by (auto simp: After_def nsec_Date Let_def)
  qed
  show ?thesis using sweep zoned by blast
qed

lemma clearExpired_test:
  "snd (clearExpiredAt testLoadLocation clearExpiredOrder clearExpiredState testNow) = 1"
  "accountAt (fst (clearExpiredAt testLoadLocation clearExpiredOrder clearExpiredState testNow)) ''expired''
     = \<lparr>Status = ''available'', LimitedAt = [], ResetsAt = [], LastUsed = ''2026-02-18T10:00:00Z''\<rparr>"
  "accountAt (fst (clearExpiredAt testLoadLocation clearExpiredOrder clearExpiredState testNow)) ''still_limited''
     = \<lparr>Status = ''limited'', LimitedAt = [], ResetsAt = ''7pm (America/Los_Angeles)'',
        LastUsed = ''2026-02-18T10:00:00Z''\<rparr>"
  "accountAt (fst (clearExpiredAt testLoadLocation clearExpiredOrder clearExpiredState testNow)) ''garbled''
     = \<lparr>Status = ''limited'', LimitedAt = [], ResetsAt = ''garbage'', LastUsed = []\<rparr>"
  "accountAt (fst (clearExpiredAt testLoadLocation clearExpiredOrder clearExpiredState testNow)) ''no_reset''
     = \<lparr>Status = ''limited'', LimitedAt = [], ResetsAt = [], LastUsed = []\<rparr>"
  "accountAt (fst (clearExpiredAt testLoadLocation clearExpiredOrder clearExpiredState testNow)) ''available''
     = \<lparr>Status = ''available'', LimitedAt = [], ResetsAt = [], LastUsed = []\<rparr>"
  by code_simp+

lemma clearExpired_due:
  "resetPassed testLoadLocation testNow (accountAt clearExpiredState ''expired'')"
  "\<not> resetPassed testLoadLocation testNow (accountAt clearExpiredState ''still_limited'')"
  "\<not> resetPassed testLoadLocation testNow (accountAt clearExpiredState ''garbled'')"
  "\<not> resetPassed testLoadLocation testNow (accountAt clearExpiredState ''no_reset'')"
  "\<not> resetPassed testLoadLocation testNow (accountAt clearExpiredState ''available'')"
  by code_simp+

lemma clearExpired_zones:
  "snd (clearExpiredAt testLoadLocation [''utc_later'', ''utc_early''] zonedState testEvening) = 1"
  "accountAt (fst (clearExpiredAt testLoadLocation [''utc_later'', ''utc_early''] zonedState testEvening))
       ''utc_early''
     = \<lparr>Status = ''available'', LimitedAt = [], ResetsAt = [], LastUsed = []\<rparr>"
  "accountAt (fst (clearExpiredAt testLoadLocation [''utc_later'', ''utc_early''] zonedState testEvening))
       ''utc_later''
     = \<lparr>Status = ''limited'', LimitedAt = [], ResetsAt = ''2am (UTC)'', LastUsed = []\<rparr>"
  "snd (clearExpiredAt testLoadLocation [''second''] fallBackState fallBack) = 1"
  "unixSec (Date 20503 2 0 0 0 utcZone) = 1771466400"
  "fst (lookup utcZone 1771462800) = 0"
  "unixSec testEvening = 1771462800" "nsec testEvening = 0"
  "testLoadLocation (TrimSpace ''UTC'') = Some utcZone"
  "decimal ''2'' = 2" "ToLower ''am'' = ''am''" "meridiemHour ''am'' 2 = 2"
  by code_simp+

theorem clearExpiredAt_sweeps_exactly_expired_witness:
  "rangeOrder clearExpiredState clearExpiredOrder
   \<and> snd (clearExpiredAt testLoadLocation clearExpiredOrder clearExpiredState testNow) = 1
   \<and> {h \<in> keysOf clearExpiredState. resetPassed testLoadLocation testNow (accountAt clearExpiredState h)}
       = {''expired''}
   \<and> accountAt (fst (clearExpiredAt testLoadLocation clearExpiredOrder clearExpiredState testNow)) ''expired''
       = \<lparr>Status = ''available'', LimitedAt = [], ResetsAt = [], LastUsed = ''2026-02-18T10:00:00Z''\<rparr>
   \<and> accountAt (fst (clearExpiredAt testLoadLocation clearExpiredOrder clearExpiredState testNow)) ''still_limited''
       = accountAt clearExpiredState ''still_limited''
   \<and> accountAt (fst (clearExpiredAt testLoadLocation clearExpiredOrder clearExpiredState testNow)) ''garbled''
       = accountAt clearExpiredState ''garbled''
   \<and> accountAt (fst (clearExpiredAt testLoadLocation clearExpiredOrder clearExpiredState testNow)) ''no_reset''
       = accountAt clearExpiredState ''no_reset''
   \<and> \<not> resetPassed testLoadLocation testEvening
         \<lparr>Status = ''limited'', LimitedAt = [], ResetsAt = ''2am (UTC)'', LastUsed = []\<rparr>
   \<and> snd (clearExpiredAt testLoadLocation [''utc_later'', ''utc_early''] zonedState testEvening) = 1
   \<and> accountAt (fst (clearExpiredAt testLoadLocation [''utc_later'', ''utc_early''] zonedState testEvening))
         ''utc_later''
       = \<lparr>Status = ''limited'', LimitedAt = [], ResetsAt = ''2am (UTC)'', LastUsed = []\<rparr>
   \<and> snd (clearExpiredAt testLoadLocation [''second''] fallBackState fallBack) = 1"
proof -
  have k: "keysOf clearExpiredState = {''expired'', ''still_limited'', ''available'', ''no_reset'', ''garbled''}"
    by (auto simp: keysOf_def clearExpiredState_def)
  have r: "rangeOrder clearExpiredState clearExpiredOrder"
    unfolding rangeOrder_def k by (auto simp: clearExpiredOrder_def)
  have s: "{h \<in> keysOf clearExpiredState. resetPassed testLoadLocation testNow (accountAt clearExpiredState h)}
             = {''expired''}"
    unfolding k using clearExpired_due by auto
  have lu: "LastUsed (accountAt clearExpiredState ''expired'') = ''2026-02-18T10:00:00Z''"
    by (simp add: accountAt_def valueAt_def clearExpiredState_def)
  note t = clearExpiredAt_sweeps_exactly_expired [OF r, of testLoadLocation testEvening]
  have z: "\<not> resetPassed testLoadLocation testEvening
         \<lparr>Status = ''limited'', LimitedAt = [], ResetsAt = ''2am (UTC)'', LastUsed = []\<rparr>"
    using t [THEN conjunct2, THEN conjunct2, THEN conjunct2, THEN conjunct2, rule_format,
        of "\<lparr>Status = ''limited'', LimitedAt = [], ResetsAt = ''2am (UTC)'', LastUsed = []\<rparr>"
           "''2''" "''am''" "''UTC''" utcZone]
    by (simp add: clearExpired_zones QuotaStatusLimited_def isDigit_def Let_def)
  show ?thesis
    using clearExpiredAt_sweeps_exactly_expired [OF r, of testLoadLocation testNow] r s lu k
      clearExpired_due z clearExpired_zones(1,3,4)
    by (simp add: QuotaStatusAvailable_def)
qed

section \<open>ParseResetTime\<close>

lemma meridiemHour_cases:
  assumes "ampm = ''am'' \<or> ampm = ''pm''"
  shows "(ampm = ''am'' \<and> h = 12 \<longrightarrow> meridiemHour ampm h = 0)
       \<and> (ampm = ''pm'' \<and> h = 12 \<longrightarrow> meridiemHour ampm h = 12)
       \<and> (ampm = ''pm'' \<and> h \<noteq> 12 \<longrightarrow> meridiemHour ampm h = h + 12)
       \<and> (ampm = ''am'' \<and> h \<noteq> 12 \<longrightarrow> meridiemHour ampm h = h)"
  using assms by (auto simp: meridiemHour_def)

lemma meridiemHour_nonneg:
  assumes "0 \<le> h"
  shows "0 \<le> meridiemHour ampm h"
  using assms by (auto simp: meridiemHour_def)

text \<open>
  What the model gives on the days of a change of the clocks, where \<open>time.Date\<close> has to
  choose: in Los Angeles on 8 March 2026, \<open>3am\<close> is 10:00 UTC, the first instant of
  summer time, and \<open>2:30am\<close>, a time that the day does not have, is 09:30 UTC, which the
  clocks show as 1:30; on 1 November 2026, \<open>1:30am\<close> is the first of the two, 08:30 UTC.
\<close>

lemma clock_change_days:
  "ParseResetTime testLoadLocation ''3am'' springForward
     = Inr \<lparr>unixSec = 1772964000, nsec = 0, location = testZone\<rparr>"
  "ParseResetTime testLoadLocation ''2:30am'' springForward
     = Inr \<lparr>unixSec = 1772962200, nsec = 0, location = testZone\<rparr>"
  "Hour \<lparr>unixSec = 1772962200, nsec = 0, location = testZone\<rparr> = 1"
  "Minute \<lparr>unixSec = 1772962200, nsec = 0, location = testZone\<rparr> = 30"
  "ParseResetTime testLoadLocation ''1:30am'' fallBack
     = Inr \<lparr>unixSec = 1793521800, nsec = 0, location = testZone\<rparr>"
  "\<not> steady testZone (20520 * 86400 + 2 * 3600 + 30 * 60)"
  by code_simp+

text \<open>
  C3, as the code has it. For every input whose text matches the pattern, \<open>ParseResetTime\<close>
  returns the instant that \<open>time.Date\<close> gives, in the resolution zone, for the date of the
  reference instant in that zone and the parsed hour of the day and minute, where 12am
  counts as hour 0, 12pm as hour 12, any other pm hour is increased by 12 and any other am
  hour is taken as it is. The instant depends on the reference instant through that date
  only: another reference instant of the same location and the same date in the zone
  gives the same instant, whether the time of day is already past or not. When the hour
  of the day is at most 23, the minute at most 59 and the reading is steady in the zone,
  the instant has the date of the reference instant and the parsed hour and minute. The
  resolution zone is the zone named in parentheses, when the database knows it. The
  pattern admits hours and minutes up to 99, and for an hour of the day beyond 23 the
  instant falls on a later day: the counterexample is \<open>13pm\<close>, which gives one o'clock of
  the next day. And where the clocks change, the instant can fall on another date for a
  time of day in range as well: in Havana the clocks go from midnight to one o'clock on
  8 March 2026, and \<open>12am (America/Havana)\<close> on that day gives 23:00 of 7 March.
\<close>

theorem ParseResetTime_today_at_parsed_time:
  assumes "splitZone LoadLocation (location reference) (TrimSpace resetsAt) = (loc, rest)"
    and "FindStringSubmatch rest = Some (m1, m2, m3)"
  shows "let day = (unixSec reference + fst (lookup loc (unixSec reference))) div 86400;
             hour = meridiemHour (ToLower m3) (decimal m1);
             minute = decimal m2
         in \<exists>t. ParseResetTime LoadLocation resetsAt reference = Inr t
              \<and> t = Date day hour minute 0 0 loc
              \<and> location t = loc
              \<and> (ToLower m3 = ''am'' \<or> ToLower m3 = ''pm'')
              \<and> (ToLower m3 = ''am'' \<and> decimal m1 = 12 \<longrightarrow> hour = 0)
              \<and> (ToLower m3 = ''pm'' \<and> decimal m1 = 12 \<longrightarrow> hour = 12)
              \<and> (ToLower m3 = ''pm'' \<and> decimal m1 \<noteq> 12 \<longrightarrow> hour = decimal m1 + 12)
              \<and> (ToLower m3 = ''am'' \<and> decimal m1 \<noteq> 12 \<longrightarrow> hour = decimal m1)
              \<and> (\<forall>other. location other = location reference
                      \<and> (unixSec other + fst (lookup loc (unixSec other))) div 86400 = day \<longrightarrow>
                    ParseResetTime LoadLocation resetsAt other = Inr t)
              \<and> (hour \<le> 23 \<and> minute \<le> 59
                    \<and> steady loc (day * 86400 + hour * 3600 + minute * 60) \<longrightarrow>
                    localDay t = day \<and> Hour t = hour \<and> Minute t = minute)
              \<and> (\<forall>hs mer name zone.
                    resetsAt = hs @ mer @ '' ('' @ name @ '')'' \<and> hs \<noteq> []
                    \<and> (\<forall>c \<in> set hs. isDigit c) \<and> (ToLower mer = ''am'' \<or> ToLower mer = ''pm'')
                    \<and> CHR '')'' \<notin> set name \<and> LoadLocation (TrimSpace name) = Some zone \<longrightarrow>
                    loc = zone)"
proof -
  let ?day = "(unixSec reference + fst (lookup loc (unixSec reference))) div 86400"
  let ?H = "meridiemHour (ToLower m3) (decimal m1)"
  let ?t = "Date ?day ?H (decimal m2) 0 0 loc"
  have f: "length m1 \<le> 2" "\<forall>c \<in> set m1. isDigit c" "m2 = [] \<or> length m2 = 2"
    "\<forall>c \<in> set m2. isDigit c" "ToLower m3 = ''am'' \<or> ToLower m3 = ''pm''"
    using FindStringSubmatch_Some [OF assms(2)] by auto
  have h: "0 \<le> decimal m1" using decimal_bounds [of m1] f by simp
  have m: "0 \<le> decimal m2" using decimal_bounds [of m2] f by auto
  have H: "0 \<le> ?H" using meridiemHour_nonneg [OF h] .
  have p: "ParseResetTime LoadLocation resetsAt reference = Inr ?t"
    using ParseResetTime_match [OF assms] .
  have same: "?H \<le> 23 \<and> decimal m2 \<le> 59
                \<and> steady loc (?day * 86400 + ?H * 3600 + decimal m2 * 60) \<longrightarrow>
                localDay ?t = ?day \<and> Hour ?t = ?H \<and> Minute ?t = decimal m2"
    using Date_same_day [of ?H "decimal m2" loc ?day] H m by blast
  have other: "\<forall>other. location other = location reference
                      \<and> (unixSec other + fst (lookup loc (unixSec other))) div 86400 = ?day \<longrightarrow>
                    ParseResetTime LoadLocation resetsAt other = Inr ?t"
  proof (intro allI impI)
    fix other :: Time
    assume a: "location other = location reference
                \<and> (unixSec other + fst (lookup loc (unixSec other))) div 86400 = ?day"
    have s: "splitZone LoadLocation (location other) (TrimSpace resetsAt) = (loc, rest)"
      using assms(1) a by simp
    show "ParseResetTime LoadLocation resetsAt other = Inr ?t"
      using ParseResetTime_match [OF s assms(2)] a by simp
  qed
  have named: "\<forall>hs mer name zone.
                    resetsAt = hs @ mer @ '' ('' @ name @ '')'' \<and> hs \<noteq> []
                    \<and> (\<forall>c \<in> set hs. isDigit c) \<and> (ToLower mer = ''am'' \<or> ToLower mer = ''pm'')
                    \<and> CHR '')'' \<notin> set name \<and> LoadLocation (TrimSpace name) = Some zone \<longrightarrow>
                    loc = zone"
  proof (intro allI impI)
    fix hs mer name zone
    assume a: "resetsAt = hs @ mer @ '' ('' @ name @ '')'' \<and> hs \<noteq> []
                    \<and> (\<forall>c \<in> set hs. isDigit c) \<and> (ToLower mer = ''am'' \<or> ToLower mer = ''pm'')
                    \<and> CHR '')'' \<notin> set name \<and> LoadLocation (TrimSpace name) = Some zone"
    obtain x m where mer: "mer = [x, m]" "x \<in> {CHR ''a'', CHR ''A'', CHR ''p'', CHR ''P''}"
      "m \<in> {CHR ''m'', CHR ''M''}"
      using meridiem_shape [of mer] a by blast
    have h1: "hs \<noteq> []" and h3: "\<forall>c \<in> set hs. isDigit c" and h5: "CHR '')'' \<notin> set name"
      and ra: "resetsAt = hs @ mer @ '' ('' @ name @ '')''"
      and ll: "LoadLocation (TrimSpace name) = Some zone"
      using a by blast+
    have "splitZone LoadLocation (location reference) (TrimSpace resetsAt) = (zone, hs @ mer)"
      unfolding ra using zoned_time_split [OF h1 h3 mer h5, of LoadLocation "location reference"] ll
      by simp
    then show "loc = zone" using assms(1) by simp
  qed
  have l: "location ?t = loc" by (rule location_Date)
  show ?thesis
    unfolding Let_def
    using p l f(5) meridiemHour_cases [OF f(5), of "decimal m1"] same other named
    by blast
qed

lemma thirteen_pm:
  "FindStringSubmatch ''13pm'' = Some (''13'', [], ''pm'')"
  "splitZone testLoadLocation (location testNow) (TrimSpace ''13pm'') = (testZone, ''13pm'')"
  "ParseResetTime testLoadLocation ''13pm'' testNow
     = Inr \<lparr>unixSec = 1771491600, nsec = 0, location = testZone\<rparr>"
  "localDay \<lparr>unixSec = 1771491600, nsec = 0, location = testZone\<rparr> = 20503"
  "localDay (In testNow testZone) = 20502"
  by code_simp+

lemma midnight_in_havana:
  "splitZone testLoadLocation (location springForward) (TrimSpace ''12am (America/Havana)'')
     = (havanaZone, ''12am'')"
  "FindStringSubmatch ''12am'' = Some (''12'', [], ''am'')"
  "ParseResetTime testLoadLocation ''12am (America/Havana)'' springForward
     = Inr \<lparr>unixSec = 1772942400, nsec = 0, location = havanaZone\<rparr>"
  "localDay \<lparr>unixSec = 1772942400, nsec = 0, location = havanaZone\<rparr> = 20519"
  "Hour \<lparr>unixSec = 1772942400, nsec = 0, location = havanaZone\<rparr> = 23"
  "localDay (In springForward havanaZone) = 20520"
  by code_simp+

theorem ParseResetTime_today_counterexample:
  "FindStringSubmatch ''13pm'' = Some (''13'', [], ''pm'')
   \<and> ParseResetTime testLoadLocation ''13pm'' testNow
       = Inr \<lparr>unixSec = 1771491600, nsec = 0, location = testZone\<rparr>
   \<and> localDay \<lparr>unixSec = 1771491600, nsec = 0, location = testZone\<rparr> = 20503
   \<and> localDay (In testNow testZone) = 20502
   \<and> FindStringSubmatch ''12am'' = Some (''12'', [], ''am'')
   \<and> ParseResetTime testLoadLocation ''12am (America/Havana)'' springForward
       = Inr \<lparr>unixSec = 1772942400, nsec = 0, location = havanaZone\<rparr>
   \<and> localDay \<lparr>unixSec = 1772942400, nsec = 0, location = havanaZone\<rparr> = 20519
   \<and> Hour \<lparr>unixSec = 1772942400, nsec = 0, location = havanaZone\<rparr> = 23
   \<and> localDay (In springForward havanaZone) = 20520"
  using thirteen_pm midnight_in_havana by simp

lemma half_past_three:
  "splitZone testLoadLocation (location testEvening) (TrimSpace ''3:30pm (UTC)'')
     = (utcZone, ''3:30pm'')"
  "FindStringSubmatch ''3:30pm'' = Some (''3'', ''30'', ''pm'')"
  "decimal ''3'' = 3" "decimal ''30'' = 30" "ToLower ''pm'' = ''pm''"
  "(unixSec testEvening + fst (lookup utcZone (unixSec testEvening))) div 86400 = 20503"
  "(unixSec testEvening + fst (lookup testZone (unixSec testEvening))) div 86400 = 20502"
  "steady utcZone 1771515000"
  "Date 20503 15 30 0 0 utcZone = \<lparr>unixSec = 1771515000, nsec = 0, location = utcZone\<rparr>"
  "meridiemHour ''pm'' 3 = 15"
  by code_simp+

lemma thirteen_am:
  "splitZone testLoadLocation (location testNow) (TrimSpace ''13am'') = (testZone, ''13am'')"
  "FindStringSubmatch ''13am'' = Some (''13'', [], ''am'')"
  "decimal ''13'' = 13" "decimal [] = 0" "ToLower ''am'' = ''am''"
  "(unixSec testNow + fst (lookup testZone (unixSec testNow))) div 86400 = 20502"
  "steady testZone 1771419600"
  "Date 20502 13 0 0 0 testZone = \<lparr>unixSec = 1771448400, nsec = 0, location = testZone\<rparr>"
  "meridiemHour ''am'' 13 = 13"
  by code_simp+

theorem ParseResetTime_today_at_parsed_time_witness:
  "splitZone testLoadLocation (location testEvening) (TrimSpace ''3:30pm (UTC)'')
     = (utcZone, ''3:30pm'')
   \<and> FindStringSubmatch ''3:30pm'' = Some (''3'', ''30'', ''pm'')
   \<and> ParseResetTime testLoadLocation ''3:30pm (UTC)'' testEvening
       = Inr \<lparr>unixSec = 1771515000, nsec = 0, location = utcZone\<rparr>
   \<and> localDay \<lparr>unixSec = 1771515000, nsec = 0, location = utcZone\<rparr> = 20503
   \<and> Hour \<lparr>unixSec = 1771515000, nsec = 0, location = utcZone\<rparr> = 15
   \<and> Minute \<lparr>unixSec = 1771515000, nsec = 0, location = utcZone\<rparr> = 30
   \<and> (unixSec testEvening + fst (lookup testZone (unixSec testEvening))) div 86400 = 20502
   \<and> ParseResetTime testLoadLocation ''13am'' testNow
       = Inr \<lparr>unixSec = 1771448400, nsec = 0, location = testZone\<rparr>
   \<and> localDay \<lparr>unixSec = 1771448400, nsec = 0, location = testZone\<rparr> = 20502
   \<and> Hour \<lparr>unixSec = 1771448400, nsec = 0, location = testZone\<rparr> = 13"
proof -
  have a: "ParseResetTime testLoadLocation ''3:30pm (UTC)'' testEvening
       = Inr \<lparr>unixSec = 1771515000, nsec = 0, location = utcZone\<rparr>
   \<and> localDay \<lparr>unixSec = 1771515000, nsec = 0, location = utcZone\<rparr> = 20503
   \<and> Hour \<lparr>unixSec = 1771515000, nsec = 0, location = utcZone\<rparr> = 15
   \<and> Minute \<lparr>unixSec = 1771515000, nsec = 0, location = utcZone\<rparr> = 30"
    using ParseResetTime_today_at_parsed_time [OF half_past_three(1) half_past_three(2)]
    by (simp add: half_past_three Let_def)
  have b: "ParseResetTime testLoadLocation ''13am'' testNow
       = Inr \<lparr>unixSec = 1771448400, nsec = 0, location = testZone\<rparr>
   \<and> localDay \<lparr>unixSec = 1771448400, nsec = 0, location = testZone\<rparr> = 20502
   \<and> Hour \<lparr>unixSec = 1771448400, nsec = 0, location = testZone\<rparr> = 13"
    using ParseResetTime_today_at_parsed_time [OF thirteen_am(1) thirteen_am(2)]
    by (simp add: thirteen_am Let_def)
  show ?thesis using a b half_past_three by simp
qed








text \<open>
  C10, as the code has it. The hour is not checked against a range. Every string of one
  or two digits followed by a meridiem in any case, alone or followed by the name of a
  zone in parentheses, matches the pattern and parses without an error, to the instant
  that \<open>time.Date\<close> gives for the hour of the day (as \<open>meridiemHour\<close> computes it) on the
  date of the reference instant in the resolution zone: the location of the reference
  instant, or the named zone when the database knows it. Whatever the input, when the
  pattern matches the call returns an instant, and when the meridiem is pm and the hour
  read exceeds 12, the hour of the day exceeds 23; the instant then lies on a day after
  the day of the reference instant in the resolution zone when the reading is steady in
  the zone. It need not when the clocks change in between: Apia left out 30 December
  2011, and \<open>13pm (Pacific/Apia)\<close> on 29 December 2011 gives one o'clock of 29 December,
  the day of the reference instant.
\<close>

theorem hour_group_unchecked:
  "(\<forall>hs mer. hs \<noteq> [] \<and> length hs \<le> 2 \<and> (\<forall>c \<in> set hs. isDigit c)
        \<and> (ToLower mer = ''am'' \<or> ToLower mer = ''pm'') \<longrightarrow>
      FindStringSubmatch (hs @ mer) = Some (hs, [], mer)
      \<and> ParseResetTime LoadLocation (hs @ mer) reference =
          Inr (Date ((unixSec reference + fst (lookup (location reference) (unixSec reference))) div 86400)
                 (meridiemHour (ToLower mer) (decimal hs)) 0 0 0 (location reference)))
   \<and> (\<forall>hs mer name zone. hs \<noteq> [] \<and> length hs \<le> 2 \<and> (\<forall>c \<in> set hs. isDigit c)
        \<and> (ToLower mer = ''am'' \<or> ToLower mer = ''pm'') \<and> CHR '')'' \<notin> set name
        \<and> LoadLocation (TrimSpace name) = Some zone \<longrightarrow>
      ParseResetTime LoadLocation (hs @ mer @ '' ('' @ name @ '')'') reference =
          Inr (Date ((unixSec reference + fst (lookup zone (unixSec reference))) div 86400)
                 (meridiemHour (ToLower mer) (decimal hs)) 0 0 0 zone))
   \<and> (\<forall>loc rest m1 m2 m3.
        splitZone LoadLocation (location reference) (TrimSpace resetsAt) = (loc, rest)
        \<and> FindStringSubmatch rest = Some (m1, m2, m3) \<longrightarrow>
        (\<exists>t. ParseResetTime LoadLocation resetsAt reference = Inr t
           \<and> (ToLower m3 = ''pm'' \<and> 12 < decimal m1 \<longrightarrow>
                 23 < meridiemHour (ToLower m3) (decimal m1)
                 \<and> (steady loc
                       ((unixSec reference + fst (lookup loc (unixSec reference))) div 86400 * 86400
                        + meridiemHour (ToLower m3) (decimal m1) * 3600 + decimal m2 * 60) \<longrightarrow>
                      (unixSec reference + fst (lookup loc (unixSec reference))) div 86400
                        < localDay t))))"
proof (intro conjI allI impI)
  fix hs mer
  assume a: "hs \<noteq> [] \<and> length hs \<le> 2 \<and> (\<forall>c \<in> set hs. isDigit c)
        \<and> (ToLower mer = ''am'' \<or> ToLower mer = ''pm'')"
  obtain x m where mer: "mer = [x, m]" "x \<in> {CHR ''a'', CHR ''A'', CHR ''p'', CHR ''P''}"
    "m \<in> {CHR ''m'', CHR ''M''}"
    using meridiem_shape [of mer] a by blast
  have s: "splitZone LoadLocation (location reference) (TrimSpace (hs @ mer))
             = (location reference, hs @ mer)"
    using plain_time_untouched [OF _ _ mer] a by blast
  show f: "FindStringSubmatch (hs @ mer) = Some (hs, [], mer)"
    using plain_time_match [OF _ _ _ mer] a by blast
  show "ParseResetTime LoadLocation (hs @ mer) reference =
          Inr (Date ((unixSec reference + fst (lookup (location reference) (unixSec reference))) div 86400)
                 (meridiemHour (ToLower mer) (decimal hs)) 0 0 0 (location reference))"
    using ParseResetTime_match [OF s f] by (simp add: decimal_def)
next
  fix hs mer name zone
  assume a: "hs \<noteq> [] \<and> length hs \<le> 2 \<and> (\<forall>c \<in> set hs. isDigit c)
        \<and> (ToLower mer = ''am'' \<or> ToLower mer = ''pm'') \<and> CHR '')'' \<notin> set name
        \<and> LoadLocation (TrimSpace name) = Some zone"
  have h1: "hs \<noteq> []" and h2: "length hs \<le> 2" and h3: "\<forall>c \<in> set hs. isDigit c"
    and h4: "ToLower mer = ''am'' \<or> ToLower mer = ''pm''" and h5: "CHR '')'' \<notin> set name"
    using a by blast+
  have z: "zone = (case LoadLocation (TrimSpace name) of None \<Rightarrow> location reference
                   | Some parsed \<Rightarrow> parsed)"
    using a by simp
  show "ParseResetTime LoadLocation (hs @ mer @ '' ('' @ name @ '')'') reference =
          Inr (Date ((unixSec reference + fst (lookup zone (unixSec reference))) div 86400)
                 (meridiemHour (ToLower mer) (decimal hs)) 0 0 0 zone)"
    using h1 h2 h3 h4 h5 z by (rule zoned_time_parse)
next
  fix loc rest m1 m2 m3
  assume a: "splitZone LoadLocation (location reference) (TrimSpace resetsAt) = (loc, rest)
        \<and> FindStringSubmatch rest = Some (m1, m2, m3)"
  let ?day = "(unixSec reference + fst (lookup loc (unixSec reference))) div 86400"
  let ?H = "meridiemHour (ToLower m3) (decimal m1)"
  let ?t = "Date ?day ?H (decimal m2) 0 0 loc"
  have p: "ParseResetTime LoadLocation resetsAt reference = Inr ?t"
    using ParseResetTime_match a by blast
  have f: "m2 = [] \<or> length m2 = 2" "\<forall>c \<in> set m2. isDigit c"
    using FindStringSubmatch_Some [of rest m1 m2 m3] a by auto
  have m: "0 \<le> decimal m2" using decimal_bounds [of m2] f by auto
  have "ToLower m3 = ''pm'' \<and> 12 < decimal m1 \<longrightarrow>
          23 < ?H \<and> (steady loc (?day * 86400 + ?H * 3600 + decimal m2 * 60) \<longrightarrow> ?day < localDay ?t)"
  proof
    assume b: "ToLower m3 = ''pm'' \<and> 12 < decimal m1"
    then have H: "?H = decimal m1 + 12" by (simp add: meridiemHour_def)
    then have "24 \<le> ?H" using b by simp
    then show "23 < ?H \<and> (steady loc (?day * 86400 + ?H * 3600 + decimal m2 * 60) \<longrightarrow> ?day < localDay ?t)"
      using Date_later_day [of ?H "decimal m2" loc ?day] m by auto
  qed
  then show "\<exists>t. ParseResetTime LoadLocation resetsAt reference = Inr t
           \<and> (ToLower m3 = ''pm'' \<and> 12 < decimal m1 \<longrightarrow>
                 23 < meridiemHour (ToLower m3) (decimal m1)
                 \<and> (steady loc
                       ((unixSec reference + fst (lookup loc (unixSec reference))) div 86400 * 86400
                        + meridiemHour (ToLower m3) (decimal m1) * 3600 + decimal m2 * 60) \<longrightarrow>
                      (unixSec reference + fst (lookup loc (unixSec reference))) div 86400
                        < localDay t))"
    using p by blast
qed

lemma thirteen_pm_apia:
  "splitZone testLoadLocation (location apiaNoon) (TrimSpace ''13pm (Pacific/Apia)'')
     = (apiaZone, ''13pm'')"
  "ParseResetTime testLoadLocation ''13pm (Pacific/Apia)'' apiaNoon
     = Inr \<lparr>unixSec = 1325156400, nsec = 0, location = apiaZone\<rparr>"
  "meridiemHour (ToLower ''pm'') (decimal ''13'') = 25"
  "localDay \<lparr>unixSec = 1325156400, nsec = 0, location = apiaZone\<rparr> = 15337"
  "Hour \<lparr>unixSec = 1325156400, nsec = 0, location = apiaZone\<rparr> = 1"
  "localDay (In apiaNoon apiaZone) = 15337"
  by code_simp+

theorem hour_group_unchecked_counterexample:
  "FindStringSubmatch ''13pm'' = Some (''13'', [], ''pm'')
   \<and> splitZone testLoadLocation (location apiaNoon) (TrimSpace ''13pm (Pacific/Apia)'')
       = (apiaZone, ''13pm'')
   \<and> meridiemHour (ToLower ''pm'') (decimal ''13'') = 25
   \<and> ParseResetTime testLoadLocation ''13pm (Pacific/Apia)'' apiaNoon
       = Inr \<lparr>unixSec = 1325156400, nsec = 0, location = apiaZone\<rparr>
   \<and> localDay \<lparr>unixSec = 1325156400, nsec = 0, location = apiaZone\<rparr> = 15337
   \<and> localDay (In apiaNoon apiaZone) = 15337"
  using thirteen_pm(1) thirteen_pm_apia by simp

lemma thirteen_pm_utc:
  "ToLower ''am'' = ''am''" "ToLower ''pm'' = ''pm''" "decimal ''0'' = 0" "decimal ''13'' = 13"
  "testLoadLocation (TrimSpace ''UTC'') = Some utcZone"
  "(unixSec testEvening + fst (lookup utcZone (unixSec testEvening))) div 86400 = 20503"
  "(unixSec testNow + fst (lookup testZone (unixSec testNow))) div 86400 = 20502"
  "location testNow = testZone"
  "splitZone testLoadLocation (location testEvening) (TrimSpace ''13pm (UTC)'') = (utcZone, ''13pm'')"
  "Date 20502 0 0 0 0 testZone = \<lparr>unixSec = 1771401600, nsec = 0, location = testZone\<rparr>"
  "Date 20503 25 0 0 0 utcZone = \<lparr>unixSec = 1771549200, nsec = 0, location = utcZone\<rparr>"
  "localDay \<lparr>unixSec = 1771549200, nsec = 0, location = utcZone\<rparr> = 20504"
  "steady utcZone 1771549200"
  "meridiemHour ''pm'' 13 = 25" "meridiemHour ''am'' 0 = 0" "decimal [] = 0"
  by code_simp+

theorem hour_group_unchecked_witness:
  "ParseResetTime testLoadLocation ''0am'' testNow
     = Inr \<lparr>unixSec = 1771401600, nsec = 0, location = testZone\<rparr>
   \<and> FindStringSubmatch ''13pm'' = Some (''13'', [], ''pm'')
   \<and> ParseResetTime testLoadLocation ''13pm (UTC)'' testEvening
       = Inr \<lparr>unixSec = 1771549200, nsec = 0, location = utcZone\<rparr>
   \<and> (unixSec testEvening + fst (lookup utcZone (unixSec testEvening))) div 86400 = 20503
   \<and> localDay \<lparr>unixSec = 1771549200, nsec = 0, location = utcZone\<rparr> = 20504
   \<and> (\<exists>t. ParseResetTime testLoadLocation ''13pm (UTC)'' testEvening = Inr t \<and> 20503 < localDay t)"
proof -
  note g = hour_group_unchecked [of testLoadLocation testNow "''13pm (UTC)''"]
  note e = hour_group_unchecked [of testLoadLocation testEvening "''13pm (UTC)''"]
  have a: "ParseResetTime testLoadLocation ''0am'' testNow
     = Inr \<lparr>unixSec = 1771401600, nsec = 0, location = testZone\<rparr>"
    using g [THEN conjunct1, rule_format, of "''0''" "''am''"]
    by (simp add: thirteen_pm_utc isDigit_def)
  have b: "ParseResetTime testLoadLocation ''13pm (UTC)'' testEvening
       = Inr \<lparr>unixSec = 1771549200, nsec = 0, location = utcZone\<rparr>"
    using e [THEN conjunct2, THEN conjunct1, rule_format, of "''13''" "''pm''" "''UTC''" utcZone]
    by (simp add: thirteen_pm_utc isDigit_def)
  have c: "\<exists>t. ParseResetTime testLoadLocation ''13pm (UTC)'' testEvening = Inr t \<and> 20503 < localDay t"
    using e [THEN conjunct2, THEN conjunct2, rule_format, OF conjI [OF thirteen_pm_utc(9) thirteen_pm(1)]]
    by (auto simp add: thirteen_pm_utc)
  show ?thesis using a b c thirteen_pm(1) thirteen_pm_utc by simp
qed

section \<open>KeychainServiceName\<close>

lemma hexDigit_inj: "a < 16 \<Longrightarrow> b < 16 \<Longrightarrow> hexDigit a = hexDigit b \<Longrightarrow> a = b"
proof -
  assume a: "a < 16" and b: "b < 16" and e: "hexDigit a = hexDigit b"
  have d: "distinct ''0123456789abcdef''" by simp
  have "length ''0123456789abcdef'' = 16" by simp
  then show "a = b" using a b e d unfolding hexDigit_def
    by (metis nth_eq_iff_index_eq)
qed

lemma hexByte_inj: "hexByte a = hexByte b \<Longrightarrow> a = b"
proof -
  assume e: "hexByte a = hexByte b"
  have l: "unat a div 16 < 16" "unat b div 16 < 16" "unat a mod 16 < 16" "unat b mod 16 < 16"
    using unsigned_less [of a, where 'a = nat] unsigned_less [of b, where 'a = nat] by auto
  have "unat a div 16 = unat b div 16" "unat a mod 16 = unat b mod 16"
    using e l hexDigit_inj by (auto simp: hexByte_def)
  then have "unat a = unat b" by (metis div_mult_mod_eq)
  then show "a = b" by (simp add: word_unat_eq_iff)
qed

lemma hexBytes_inj: "hexBytes xs = hexBytes ys \<Longrightarrow> xs = ys"
proof (induction xs arbitrary: ys)
  case Nil
  then show ?case by (cases ys) (auto simp: hexBytes_def hexByte_def)
next
  case (Cons x xs)
  then obtain y ys' where ys: "ys = y # ys'"
    by (cases ys) (auto simp: hexBytes_def hexByte_def)
  have "hexByte x = hexByte y \<and> hexBytes xs = hexBytes ys'"
    using Cons.prems ys by (auto simp: hexBytes_def hexByte_def)
  then show ?case using Cons.IH hexByte_inj ys by blast
qed

lemma length_hexBytes: "length (hexBytes bs) = 2 * length bs"
  by (induction bs) (auto simp: hexBytes_def hexByte_def)


text \<open>Paths without a tilde that all differ: the words of one letter repeated.\<close>

lemma digest_prefix_collision:
  "\<exists>m n. m \<noteq> n \<and> take 4 (Sum256 (replicate m CHR ''a'')) = take 4 ((Sum256 (replicate n CHR ''a'')) :: 8 word list)"
proof (rule ccontr)
  assume "\<not> ?thesis"
  then have inj: "inj (\<lambda>n. take 4 (Sum256 (replicate n CHR ''a'')))"
    by (auto simp: inj_on_def)
  have "range (\<lambda>n. take 4 (Sum256 (replicate n CHR ''a''))) \<subseteq> {xs :: 8 word list. length xs \<le> 4}"
    by auto
  moreover have "finite {xs :: 8 word list. length xs \<le> 4}"
    using finite_lists_length_le [of "UNIV :: 8 word set" 4] by simp
  ultimately have "finite (range (\<lambda>n. take 4 (Sum256 (replicate n CHR ''a''))))"
    by (rule finite_subset)
  then have "finite (UNIV :: nat set)" using inj by (rule finite_imageD)
  then show False by simp
qed

lemma KeychainServiceName_eq:
  "KeychainServiceName Sum256 home path =
     (if defaultPath home (expandTilde home path) then keychainServiceBase
      else keychainServiceBase @ ''-'' @ hexBytes (take 4 (Sum256 (expandTilde home path))))"
  by (auto simp: KeychainServiceName_def defaultPath_def Let_def split: option.splits)

text \<open>
  C8, as the code has it. \<open>KeychainServiceName\<close> is a function of the home directory, the
  path and nothing else. With a known home, \<open>~/.claude\<close> and the home followed by
  \<open>/.claude\<close> give the base name without a suffix. Every path whose expansion is not
  that directory gives the base name, a hyphen and the lower-case hexadecimal of the
  first four bytes of the digest of the expanded path. Paths with the same expansion
  give the same name. Two paths that are not the default give different names exactly
  when the first four bytes of the digests of their expansions differ; different paths
  need not: \<open>~/work\<close> and \<open>/Users/u/work\<close> have one name, and among the paths
  without a tilde two different ones have one name whatever the digest function is, since
  four bytes take finitely many values.
\<close>

theorem KeychainServiceName_address:
  "KeychainServiceName Sum256 (Some h) ''~/.claude'' = keychainServiceBase
   \<and> (\<not> HasPrefix (h @ ''/.claude'') ''~/'' \<longrightarrow>
        KeychainServiceName Sum256 (Some h) (h @ ''/.claude'') = keychainServiceBase)
   \<and> (\<not> defaultPath home (expandTilde home p) \<longrightarrow>
        KeychainServiceName Sum256 home p
          = keychainServiceBase @ ''-'' @ hexBytes (take 4 (Sum256 (expandTilde home p)))
        \<and> length (hexBytes (take 4 (Sum256 (expandTilde home p))))
            = 2 * min 4 (length (Sum256 (expandTilde home p))))
   \<and> (expandTilde home p = expandTilde home q \<longrightarrow>
        KeychainServiceName Sum256 home p = KeychainServiceName Sum256 home q)
   \<and> (\<not> defaultPath home (expandTilde home p) \<and> \<not> defaultPath home (expandTilde home q) \<longrightarrow>
        (KeychainServiceName Sum256 home p \<noteq> KeychainServiceName Sum256 home q
         \<longleftrightarrow> take 4 (Sum256 (expandTilde home p)) \<noteq> take 4 (Sum256 (expandTilde home q))))"
proof -
  have a: "KeychainServiceName Sum256 (Some h) ''~/.claude'' = keychainServiceBase"
    by (simp add: KeychainServiceName_eq defaultPath_def expandTilde_def HasPrefix_def
        defaultClaudeConfigDir_def)
  have b: "\<not> HasPrefix (h @ ''/.claude'') ''~/'' \<longrightarrow>
        KeychainServiceName Sum256 (Some h) (h @ ''/.claude'') = keychainServiceBase"
    by (simp add: KeychainServiceName_eq defaultPath_def expandTilde_def defaultClaudeConfigDir_def)
  have c: "\<not> defaultPath home (expandTilde home p) \<longrightarrow>
        KeychainServiceName Sum256 home p
          = keychainServiceBase @ ''-'' @ hexBytes (take 4 (Sum256 (expandTilde home p)))
        \<and> length (hexBytes (take 4 (Sum256 (expandTilde home p))))
            = 2 * min 4 (length (Sum256 (expandTilde home p)))"
    by (simp add: KeychainServiceName_eq length_hexBytes min.commute)
  have d: "expandTilde home p = expandTilde home q \<longrightarrow>
        KeychainServiceName Sum256 home p = KeychainServiceName Sum256 home q"
    by (simp add: KeychainServiceName_eq)
  have e: "\<not> defaultPath home (expandTilde home p) \<and> \<not> defaultPath home (expandTilde home q) \<longrightarrow>
        (KeychainServiceName Sum256 home p \<noteq> KeychainServiceName Sum256 home q
         \<longleftrightarrow> take 4 (Sum256 (expandTilde home p)) \<noteq> take 4 (Sum256 (expandTilde home q)))"
    using hexBytes_inj by (auto simp: KeychainServiceName_eq)
  show ?thesis using a b c d e by blast
qed

theorem KeychainServiceName_address_witness:
  "\<forall>Sum256.
     KeychainServiceName Sum256 (Some ''/Users/u'') ''~/.claude'' = ''Claude Code-credentials''
     \<and> KeychainServiceName Sum256 (Some ''/Users/u'') ''/Users/u/.claude'' = ''Claude Code-credentials''
     \<and> KeychainServiceName Sum256 (Some ''/Users/u'') ''~/work''
         = ''Claude Code-credentials-'' @ hexBytes (take 4 (Sum256 ''/Users/u/work''))
     \<and> KeychainServiceName Sum256 (Some ''/Users/u'') ''~/work''
         = KeychainServiceName Sum256 (Some ''/Users/u'') ''/Users/u/work''"
proof
  fix Sum256 :: "string \<Rightarrow> 8 word list"
  have x: "expandTilde (Some ''/Users/u'') ''~/work'' = ''/Users/u/work''"
    "expandTilde (Some ''/Users/u'') ''/Users/u/work'' = ''/Users/u/work''"
    "\<not> defaultPath (Some ''/Users/u'') ''/Users/u/work''"
    "\<not> HasPrefix (''/Users/u'' @ ''/.claude'') ''~/''"
    by (simp_all add: expandTilde_def HasPrefix_def defaultPath_def defaultClaudeConfigDir_def)
  show "KeychainServiceName Sum256 (Some ''/Users/u'') ''~/.claude'' = ''Claude Code-credentials''
     \<and> KeychainServiceName Sum256 (Some ''/Users/u'') ''/Users/u/.claude'' = ''Claude Code-credentials''
     \<and> KeychainServiceName Sum256 (Some ''/Users/u'') ''~/work''
         = ''Claude Code-credentials-'' @ hexBytes (take 4 (Sum256 ''/Users/u/work''))
     \<and> KeychainServiceName Sum256 (Some ''/Users/u'') ''~/work''
         = KeychainServiceName Sum256 (Some ''/Users/u'') ''/Users/u/work''"
  proof -
    note t = KeychainServiceName_address
      [of Sum256 "''/Users/u''" "Some ''/Users/u''" "''~/work''" "''/Users/u/work''"]
    have a: "KeychainServiceName Sum256 (Some ''/Users/u'') ''~/.claude'' = keychainServiceBase"
      using t by blast
    have b: "KeychainServiceName Sum256 (Some ''/Users/u'') ''/Users/u/.claude'' = keychainServiceBase"
      using t x(4) by simp
    have c: "KeychainServiceName Sum256 (Some ''/Users/u'') ''~/work''
              = keychainServiceBase @ ''-'' @ hexBytes (take 4 (Sum256 ''/Users/u/work''))"
      using t x(1,3) by simp
    have d: "KeychainServiceName Sum256 (Some ''/Users/u'') ''~/work''
         = KeychainServiceName Sum256 (Some ''/Users/u'') ''/Users/u/work''"
      using t x(1,2) by simp
    show ?thesis unfolding a b using c d by (simp add: keychainServiceBase_def)
  qed
qed

theorem KeychainServiceName_distinct_counterexample:
  "\<forall>Sum256.
     ''~/work'' \<noteq> ''/Users/u/work''
     \<and> \<not> defaultPath (Some ''/Users/u'') (expandTilde (Some ''/Users/u'') ''~/work'')
     \<and> \<not> defaultPath (Some ''/Users/u'') (expandTilde (Some ''/Users/u'') ''/Users/u/work'')
     \<and> KeychainServiceName Sum256 (Some ''/Users/u'') ''~/work''
         = KeychainServiceName Sum256 (Some ''/Users/u'') ''/Users/u/work''
     \<and> (\<forall>home. \<not> (\<forall>p q. p \<noteq> q \<and> expandTilde home p = p \<and> expandTilde home q = q
                     \<and> \<not> defaultPath home p \<and> \<not> defaultPath home q
                   \<longrightarrow> KeychainServiceName Sum256 home p \<noteq> KeychainServiceName Sum256 home q))"
proof (intro allI conjI)
  fix Sum256 :: "string \<Rightarrow> 8 word list"
  show "''~/work'' \<noteq> ''/Users/u/work''" by simp
  show "\<not> defaultPath (Some ''/Users/u'') (expandTilde (Some ''/Users/u'') ''~/work'')"
    "\<not> defaultPath (Some ''/Users/u'') (expandTilde (Some ''/Users/u'') ''/Users/u/work'')"
    by (simp_all add: expandTilde_def HasPrefix_def defaultPath_def defaultClaudeConfigDir_def)
  show "KeychainServiceName Sum256 (Some ''/Users/u'') ''~/work''
         = KeychainServiceName Sum256 (Some ''/Users/u'') ''/Users/u/work''"
    by (simp add: KeychainServiceName_eq expandTilde_def HasPrefix_def)
next
  fix Sum256 :: "string \<Rightarrow> 8 word list" and home
  obtain m n where mn: "m \<noteq> n"
    "take 4 (Sum256 (replicate m CHR ''a'')) = take 4 (Sum256 (replicate n CHR ''a''))"
    using digest_prefix_collision [of Sum256] by blast
  let ?p = "replicate m CHR ''a''" and ?q = "replicate n CHR ''a''"
  have ne: "?p \<noteq> ?q" using mn(1) by (metis length_replicate)
  have ex: "\<And>k. expandTilde home (replicate k CHR ''a'') = replicate k CHR ''a''"
  proof -
    fix k
    have "\<not> HasPrefix (replicate k CHR ''a'') ''~/''"
      by (cases k) (auto simp: HasPrefix_def)
    then show "expandTilde home (replicate k CHR ''a'') = replicate k CHR ''a''"
      by (simp add: expandTilde_def)
  qed
  have nd: "\<And>k. \<not> defaultPath home (replicate k CHR ''a'')"
  proof -
    fix k
    have n: "CHR ''/'' \<notin> set (replicate k CHR ''a'')" by auto
    have "\<And>h. replicate k CHR ''a'' \<noteq> h @ ''/'' @ defaultClaudeConfigDir"
    proof
      fix h
      assume "replicate k CHR ''a'' = h @ ''/'' @ defaultClaudeConfigDir"
      then have "set (replicate k CHR ''a'') = set (h @ ''/'' @ defaultClaudeConfigDir)" by simp
      then show False using n by simp
    qed
    then show "\<not> defaultPath home (replicate k CHR ''a'')"
      by (simp add: defaultPath_def split: option.splits)
  qed
  have "KeychainServiceName Sum256 home ?p = KeychainServiceName Sum256 home ?q"
    using mn(2) by (simp add: KeychainServiceName_eq ex nd)
  then show "\<not> (\<forall>p q. p \<noteq> q \<and> expandTilde home p = p \<and> expandTilde home q = q
                     \<and> \<not> defaultPath home p \<and> \<not> defaultPath home q
                   \<longrightarrow> KeychainServiceName Sum256 home p \<noteq> KeychainServiceName Sum256 home q)"
    using ne ex nd by blast
qed

section \<open>Swap and restore\<close>

lemma spaceRunes_no_newline:
  "x \<in> set spaceRunes2 \<Longrightarrow> length x = 2 \<and> CHR 0x0A \<notin> set x"
  "x \<in> set spaceRunes3 \<Longrightarrow> length x = 3 \<and> CHR 0x0A \<notin> set x"
  unfolding spaceRunes2_def spaceRunes3_def by auto

lemma take_snoc_in_table:
  assumes "\<And>x. x \<in> T \<Longrightarrow> length x = n \<and> c \<notin> set x"
  shows "take n (xs @ [c]) \<in> T \<longleftrightarrow> take n xs \<in> T"
proof (cases "n \<le> length xs")
  case True
  then show ?thesis by simp
next
  case False
  then have l: "length (take n xs) < n" "c \<in> set (take n (xs @ [c]))" by auto
  have a: "take n xs \<notin> T" using assms [of "take n xs"] l(1) by auto
  have b: "take n (xs @ [c]) \<notin> T" using assms [of "take n (xs @ [c])"] l(2) by auto
  show ?thesis using a b by simp
qed

lemma TrimLeftSpace_newline:
  "TrimLeftSpace (s @ [CHR 0x0A]) = (if TrimLeftSpace s = [] then [] else TrimLeftSpace s @ [CHR 0x0A])"
proof (induction s rule: TrimLeftSpace.induct)
  case 1
  show ?case by (simp add: asciiSpace_def)
next
  case (2 c cs)
  let ?nl = "CHR 0x0A"
  have t2: "take 2 (c # (cs @ [?nl])) \<in> set spaceRunes2 \<longleftrightarrow> take 2 (c # cs) \<in> set spaceRunes2"
    using take_snoc_in_table [of "set spaceRunes2" 2 ?nl "c # cs"] spaceRunes_no_newline(1)
    by (simp only: append_Cons) blast
  have t3: "take 3 (c # (cs @ [?nl])) \<in> set spaceRunes3 \<longleftrightarrow> take 3 (c # cs) \<in> set spaceRunes3"
    using take_snoc_in_table [of "set spaceRunes3" 3 ?nl "c # cs"] spaceRunes_no_newline(2)
    by (simp only: append_Cons) blast
  have L: "TrimLeftSpace (c # cs) =
     (if c \<in> set asciiSpace then TrimLeftSpace cs
      else if take 2 (c # cs) \<in> set spaceRunes2 then TrimLeftSpace (drop 1 cs)
      else if take 3 (c # cs) \<in> set spaceRunes3 then TrimLeftSpace (drop 2 cs)
      else c # cs)"
    by (rule TrimLeftSpace.simps(2))
  have R: "TrimLeftSpace ((c # cs) @ [?nl]) =
     (if c \<in> set asciiSpace then TrimLeftSpace (cs @ [?nl])
      else if take 2 (c # cs) \<in> set spaceRunes2 then TrimLeftSpace (drop 1 (cs @ [?nl]))
      else if take 3 (c # cs) \<in> set spaceRunes3 then TrimLeftSpace (drop 2 (cs @ [?nl]))
      else (c # cs) @ [?nl])"
    by (simp only: append_Cons TrimLeftSpace.simps(2) t2 t3)
  show ?case
  proof (cases "c \<in> set asciiSpace")
    case True
    have "TrimLeftSpace (c # cs) = TrimLeftSpace cs"
      "TrimLeftSpace ((c # cs) @ [?nl]) = TrimLeftSpace (cs @ [?nl])"
      using True by (simp_all only: L R if_True)
    then show ?thesis using "2.IH"(1) [OF True] by (simp only:)
  next
    case na: False
    show ?thesis
    proof (cases "take 2 (c # cs) \<in> set spaceRunes2")
      case True
      then have "length (take 2 (c # cs)) = 2" using spaceRunes_no_newline(1) by blast
      then have "cs \<noteq> []" by auto
      then have d: "drop 1 (cs @ [?nl]) = drop 1 cs @ [?nl]" by (cases cs) auto
      have "TrimLeftSpace (c # cs) = TrimLeftSpace (drop 1 cs)"
        "TrimLeftSpace ((c # cs) @ [?nl]) = TrimLeftSpace (drop 1 cs @ [?nl])"
        using na True by (simp_all only: L R d if_True if_False)
      then show ?thesis using "2.IH"(2) [OF na True] by (simp only:)
    next
      case n2: False
      show ?thesis
      proof (cases "take 3 (c # cs) \<in> set spaceRunes3")
        case True
        then have "length (take 3 (c # cs)) = 3" using spaceRunes_no_newline(2) by blast
        then have "2 \<le> length cs" by auto
        then have d: "drop 2 (cs @ [?nl]) = drop 2 cs @ [?nl]" by simp
        have "TrimLeftSpace (c # cs) = TrimLeftSpace (drop 2 cs)"
          "TrimLeftSpace ((c # cs) @ [?nl]) = TrimLeftSpace (drop 2 cs @ [?nl])"
          using na n2 True by (simp_all only: L R d if_True if_False)
        then show ?thesis using "2.IH"(3) [OF na n2 True] by (simp only:)
      next
        case False
        have "TrimLeftSpace (c # cs) = c # cs"
          "TrimLeftSpace ((c # cs) @ [?nl]) = (c # cs) @ [?nl]"
          using na n2 False by (simp_all only: L R if_False)
        then show ?thesis by (simp only:) simp
      qed
    qed
  qed
qed

lemma dropSpaceRev_newline: "dropSpaceRev (CHR 0x0A # r) = dropSpaceRev r"
  by (simp add: asciiSpace_def)

lemma TrimRightSpace_newline: "TrimRightSpace (s @ [CHR 0x0A]) = TrimRightSpace s"
  by (simp only: TrimRightSpace_def rev_append rev.simps append_Nil append_Cons dropSpaceRev_newline)

lemma TrimSpace_newline: "TrimSpace (s @ [CHR 0x0A]) = TrimSpace s"
proof (cases "TrimLeftSpace s = []")
  case True
  then show ?thesis by (simp only: TrimSpace_def TrimLeftSpace_newline) simp
next
  case False
  then show ?thesis
    by (simp only: TrimSpace_def TrimLeftSpace_newline if_False TrimRightSpace_newline)
qed


lemma spaceRunes_length:
  "x \<in> set spaceRunes2 \<Longrightarrow> length x = 2"
  "x \<in> set spaceRunes3 \<Longrightarrow> length x = 3"
  unfolding spaceRunes2_def spaceRunes3_def by auto

definition leadingSpace :: "string \<Rightarrow> bool" where
  "leadingSpace s =
     (s \<noteq> [] \<and> (hd s \<in> set asciiSpace \<or> take 2 s \<in> set spaceRunes2 \<or> take 3 s \<in> set spaceRunes3))"

definition trailingSpace :: "string \<Rightarrow> bool" where
  "trailingSpace r =
     (r \<noteq> [] \<and> (hd r \<in> set asciiSpace \<or> rev (take 2 r) \<in> set spaceRunes2
                 \<or> rev (take 3 r) \<in> set spaceRunes3))"

lemma TrimLeftSpace_fixed: "\<not> leadingSpace s \<Longrightarrow> TrimLeftSpace s = s"
proof (cases s)
  case Nil
  then show ?thesis by simp
next
  case (Cons c cs)
  assume "\<not> leadingSpace s"
  then have a: "c \<notin> set asciiSpace" "take 2 (c # cs) \<notin> set spaceRunes2"
    "take 3 (c # cs) \<notin> set spaceRunes3"
    unfolding leadingSpace_def Cons by simp_all
  show ?thesis unfolding Cons by (subst TrimLeftSpace.simps) (simp only: a if_False)
qed

lemma TrimLeftSpace_trimmed: "\<not> leadingSpace (TrimLeftSpace s)"
proof (induction s rule: TrimLeftSpace.induct)
  case 1
  show ?case by (simp add: leadingSpace_def)
next
  case (2 c cs)
  have L: "TrimLeftSpace (c # cs) =
     (if c \<in> set asciiSpace then TrimLeftSpace cs
      else if take 2 (c # cs) \<in> set spaceRunes2 then TrimLeftSpace (drop 1 cs)
      else if take 3 (c # cs) \<in> set spaceRunes3 then TrimLeftSpace (drop 2 cs)
      else c # cs)"
    by (rule TrimLeftSpace.simps(2))
  show ?case
  proof (cases "c \<in> set asciiSpace")
    case True
    then have e: "TrimLeftSpace (c # cs) = TrimLeftSpace cs" by (simp only: L if_True)
    show ?thesis unfolding e by (rule "2.IH"(1) [OF True])
  next
    case na: False
    show ?thesis
    proof (cases "take 2 (c # cs) \<in> set spaceRunes2")
      case True
      then have e: "TrimLeftSpace (c # cs) = TrimLeftSpace (drop 1 cs)"
        using na by (simp only: L if_True if_False)
      show ?thesis unfolding e by (rule "2.IH"(2) [OF na True])
    next
      case n2: False
      show ?thesis
      proof (cases "take 3 (c # cs) \<in> set spaceRunes3")
        case True
        then have e: "TrimLeftSpace (c # cs) = TrimLeftSpace (drop 2 cs)"
          using na n2 by (simp only: L if_True if_False)
        show ?thesis unfolding e by (rule "2.IH"(3) [OF na n2 True])
      next
        case False
        have e: "TrimLeftSpace (c # cs) = c # cs" using na n2 False by (simp only: L if_False)
        show ?thesis unfolding e leadingSpace_def using na n2 False by simp
      qed
    qed
  qed
qed

lemma dropSpaceRev_fixed: "\<not> trailingSpace r \<Longrightarrow> dropSpaceRev r = r"
proof (cases r)
  case Nil
  then show ?thesis by simp
next
  case (Cons c cs)
  assume "\<not> trailingSpace r"
  then have a: "c \<notin> set asciiSpace" "rev (take 2 (c # cs)) \<notin> set spaceRunes2"
    "rev (take 3 (c # cs)) \<notin> set spaceRunes3"
    unfolding trailingSpace_def Cons by simp_all
  show ?thesis unfolding Cons by (subst dropSpaceRev.simps) (simp only: a if_False)
qed

lemma dropSpaceRev_trimmed: "\<not> trailingSpace (dropSpaceRev r) \<and> (\<exists>n. dropSpaceRev r = drop n r)"
proof (induction r rule: dropSpaceRev.induct)
  case 1
  show ?case by (simp add: trailingSpace_def)
next
  case (2 c cs)
  have L: "dropSpaceRev (c # cs) =
     (if c \<in> set asciiSpace then dropSpaceRev cs
      else if rev (take 2 (c # cs)) \<in> set spaceRunes2 then dropSpaceRev (drop 1 cs)
      else if rev (take 3 (c # cs)) \<in> set spaceRunes3 then dropSpaceRev (drop 2 cs)
      else c # cs)"
    by (rule dropSpaceRev.simps(2))
  show ?case
  proof (cases "c \<in> set asciiSpace")
    case True
    then have e: "dropSpaceRev (c # cs) = dropSpaceRev cs" by (simp only: L if_True)
    obtain n where "dropSpaceRev cs = drop n cs" using "2.IH"(1) [OF True] by blast
    then have "dropSpaceRev cs = drop (Suc n) (c # cs)" by simp
    then show ?thesis unfolding e using "2.IH"(1) [OF True] by blast
  next
    case na: False
    show ?thesis
    proof (cases "rev (take 2 (c # cs)) \<in> set spaceRunes2")
      case True
      then have e: "dropSpaceRev (c # cs) = dropSpaceRev (drop 1 cs)"
        using na by (simp only: L if_True if_False)
      obtain n where "dropSpaceRev (drop 1 cs) = drop n (drop 1 cs)"
        using "2.IH"(2) [OF na True] by blast
      then have "dropSpaceRev (drop 1 cs) = drop (Suc (Suc n)) (c # cs)" by simp
      then show ?thesis unfolding e using "2.IH"(2) [OF na True] by blast
    next
      case n2: False
      show ?thesis
      proof (cases "rev (take 3 (c # cs)) \<in> set spaceRunes3")
        case True
        then have e: "dropSpaceRev (c # cs) = dropSpaceRev (drop 2 cs)"
          using na n2 by (simp only: L if_True if_False)
        obtain n where "dropSpaceRev (drop 2 cs) = drop n (drop 2 cs)"
          using "2.IH"(3) [OF na n2 True] by blast
        then have "dropSpaceRev (drop 2 cs) = drop (Suc (Suc (Suc n))) (c # cs)" by simp
        then show ?thesis unfolding e using "2.IH"(3) [OF na n2 True] by blast
      next
        case False
        have e: "dropSpaceRev (c # cs) = c # cs" using na n2 False by (simp only: L if_False)
        have t: "\<not> trailingSpace (c # cs)"
          unfolding trailingSpace_def using na n2 False by simp
        have "c # cs = drop 0 (c # cs)" by simp
        then show ?thesis unfolding e using t by blast
      qed
    qed
  qed
qed

lemma leadingSpace_take: "leadingSpace (take n t) \<Longrightarrow> leadingSpace t"
proof -
  assume a: "leadingSpace (take n t)"
  then have ne: "take n t \<noteq> []" by (simp add: leadingSpace_def)
  then have t: "t \<noteq> []" "0 < n" by auto
  have h: "hd (take n t) = hd t" using t by (cases t; cases n) auto
  have t2: "take 2 (take n t) \<in> set spaceRunes2 \<Longrightarrow> take 2 t \<in> set spaceRunes2"
  proof -
    assume m: "take 2 (take n t) \<in> set spaceRunes2"
    then have "length (take 2 (take n t)) = 2" by (rule spaceRunes_length)
    then have "2 \<le> n" by simp
    then have "take 2 (take n t) = take 2 t" by (simp add: min_def)
    then show ?thesis using m by simp
  qed
  have t3: "take 3 (take n t) \<in> set spaceRunes3 \<Longrightarrow> take 3 t \<in> set spaceRunes3"
  proof -
    assume m: "take 3 (take n t) \<in> set spaceRunes3"
    then have "length (take 3 (take n t)) = 3" by (rule spaceRunes_length)
    then have "3 \<le> n" by simp
    then have "take 3 (take n t) = take 3 t" by (simp add: min_def)
    then show ?thesis using m by simp
  qed
  show ?thesis using a t h t2 t3 unfolding leadingSpace_def by metis
qed

lemma TrimSpace_idem: "TrimSpace (TrimSpace s) = TrimSpace s"
proof -
  define t where "t = TrimLeftSpace s"
  define u where "u = TrimRightSpace t"
  obtain n where n: "dropSpaceRev (rev t) = drop n (rev t)"
    using dropSpaceRev_trimmed [of "rev t"] by blast
  have u: "u = take (length t - n) t"
    unfolding u_def TrimRightSpace_def n by (simp add: rev_drop)
  have "\<not> leadingSpace t" unfolding t_def by (rule TrimLeftSpace_trimmed)
  then have "\<not> leadingSpace u" using leadingSpace_take [of "length t - n" t] u by blast
  then have l: "TrimLeftSpace u = u" by (rule TrimLeftSpace_fixed)
  have "dropSpaceRev (dropSpaceRev (rev t)) = dropSpaceRev (rev t)"
    using dropSpaceRev_trimmed [of "rev t"] dropSpaceRev_fixed by blast
  then have r: "TrimRightSpace u = u"
    unfolding u_def TrimRightSpace_def by simp
  have "TrimSpace s = u" unfolding TrimSpace_def u_def t_def ..
  moreover have "TrimSpace u = u" unfolding TrimSpace_def l r ..
  ultimately show ?thesis by simp
qed

lemma runSecurity_entries: "entries (snd (runSecurity kc)) = entries kc"
  by (simp add: runSecurity_def split: list.splits)

lemma ReadKeychainToken_eq:
  "ReadKeychainToken kc svc =
     (if fst (runSecurity kc) then Inl (CredentialReadFailure svc)
      else case entries kc svc of
        None \<Rightarrow> Inl (CredentialReadFailure svc)
      | Some secret \<Rightarrow> Inr (TrimSpace secret),
      snd (runSecurity kc))"
proof (cases "runSecurity kc")
  case (Pair failed kc')
  have e: "entries kc' = entries kc" using runSecurity_entries [of kc] Pair by simp
  show ?thesis
    by (simp add: ReadKeychainToken_def Pair e TrimSpace_newline split: option.splits)
qed

lemma WriteKeychainToken_eq:
  "WriteKeychainToken kc svc label tok =
     (if fst (runSecurity kc) then (Some (CredentialWriteFailure svc), snd (runSecurity kc))
      else (None, (snd (runSecurity kc))\<lparr>entries := (entries kc)(svc \<mapsto> tok)\<rparr>))"
proof (cases "runSecurity kc")
  case (Pair failed kc')
  have e: "entries kc' = entries kc" using runSecurity_entries [of kc] Pair by simp
  show ?thesis by (simp add: WriteKeychainToken_def Pair e)
qed

lemma ReadKeychainToken_Inr:
  assumes "ReadKeychainToken kc svc = (Inr tok, kc1)"
  shows "entries kc1 = entries kc \<and> \<not> fst (runSecurity kc)
         \<and> (\<exists>secret. entries kc svc = Some secret \<and> tok = TrimSpace secret)"
  using assms unfolding ReadKeychainToken_eq
  by (auto simp: runSecurity_entries split: if_splits option.splits)

text \<open>
  C7. When \<open>SwapKeychainCredential\<close> succeeds, the backup it returns holds the name of the
  target's entry and the secret that \<open>ReadKeychainToken\<close> read there before the swap. When
  \<open>RestoreKeychainToken\<close> of this backup, run on the keychain that the swap left, returns
  no error, the target's entry holds the secret of the backup and every other entry is as
  it was before the swap; whoever then reads the target's entry with \<open>ReadKeychainToken\<close>
  gets what \<open>ReadKeychainToken\<close> gave before the swap. (The secret of the backup is the
  secret of the store without the white space around it, which \<open>ReadKeychainToken\<close>
  trims; the program reads the store through \<open>ReadKeychainToken\<close> only.) When the run of
  the tool fails, \<open>RestoreKeychainToken\<close> returns its error and the store is as the swap
  left it. \<open>RestoreKeychainToken\<close> of no backup changes nothing and returns no error.
\<close>

theorem swap_then_restore:
  "(\<forall>backup kc1.
      SwapKeychainCredential Sum256 home kc target source = (Inr backup, kc1) \<longrightarrow>
      ServiceName backup = KeychainServiceName Sum256 home target
      \<and> fst (ReadKeychainToken kc (KeychainServiceName Sum256 home target)) = Inr (Token backup)
      \<and> (\<exists>pre. entries kc (KeychainServiceName Sum256 home target) = Some pre
                \<and> Token backup = TrimSpace pre)
      \<and> (\<forall>kc2. RestoreKeychainToken kc1 (Some backup) = (None, kc2) \<longrightarrow>
            entries kc2 = (entries kc)(KeychainServiceName Sum256 home target \<mapsto> Token backup)
            \<and> (\<forall>k. entries k = entries kc2 \<and> \<not> fst (runSecurity k) \<longrightarrow>
                  fst (ReadKeychainToken k (KeychainServiceName Sum256 home target))
                    = fst (ReadKeychainToken kc (KeychainServiceName Sum256 home target))))
      \<and> (\<forall>err kc2. RestoreKeychainToken kc1 (Some backup) = (Some err, kc2) \<longrightarrow>
            entries kc2 = entries kc1))
   \<and> RestoreKeychainToken kc None = (None, kc)"
proof (intro conjI allI impI)
  fix backup kc1
  assume a: "SwapKeychainCredential Sum256 home kc target source = (Inr backup, kc1)"
  let ?t = "KeychainServiceName Sum256 home target"
  let ?s = "KeychainServiceName Sum256 home source"
  obtain tok kca where r1: "ReadKeychainToken kc ?t = (Inr tok, kca)"
    using a by (auto simp: SwapKeychainCredential_def Let_def split: prod.splits sum.splits)
  obtain src kcb where r2: "ReadKeychainToken kca ?s = (Inr src, kcb)"
    using a r1 by (auto simp: SwapKeychainCredential_def Let_def split: prod.splits sum.splits)
  have w: "WriteKeychainToken kcb ?t ''claude-code'' src = (None, kc1)"
    and b: "backup = \<lparr>ServiceName = ?t, Token = tok\<rparr>"
    using a r1 r2
    by (auto simp: SwapKeychainCredential_def Let_def split: prod.splits sum.splits option.splits)
  obtain pre where pre: "entries kca = entries kc" "entries kc ?t = Some pre" "tok = TrimSpace pre"
    using ReadKeychainToken_Inr [OF r1] by blast
  have eb: "entries kcb = entries kca" using ReadKeychainToken_Inr [OF r2] by blast
  have e1: "entries kc1 = (entries kc)(?t \<mapsto> src)"
    using w eb pre(1) unfolding WriteKeychainToken_eq
    by (auto simp: runSecurity_entries split: if_splits)
  show "ServiceName backup = ?t" using b by simp
  show f: "fst (ReadKeychainToken kc ?t) = Inr (Token backup)" using r1 b by simp
  show "\<exists>pre. entries kc ?t = Some pre \<and> Token backup = TrimSpace pre"
    using pre b by simp
  {
    fix kc2
    assume r: "RestoreKeychainToken kc1 (Some backup) = (None, kc2)"
    then have "WriteKeychainToken kc1 ?t ''claude-code'' tok = (None, kc2)"
      by (simp add: RestoreKeychainToken_def b)
    then have "entries kc2 = (entries kc1)(?t \<mapsto> tok)"
      unfolding WriteKeychainToken_eq by (auto simp: runSecurity_entries split: if_splits)
    then show e2: "entries kc2 = (entries kc)(?t \<mapsto> Token backup)"
      using e1 b by simp
    fix k
    assume k: "entries k = entries kc2 \<and> \<not> fst (runSecurity k)"
    have "TrimSpace tok = tok" unfolding pre(3) by (rule TrimSpace_idem)
    then have "fst (ReadKeychainToken k ?t) = Inr tok"
      using k e2 b unfolding ReadKeychainToken_eq by simp
    then show "fst (ReadKeychainToken k ?t) = fst (ReadKeychainToken kc ?t)"
      using f b by simp
  }
  {
    fix err kc2
    assume "RestoreKeychainToken kc1 (Some backup) = (Some err, kc2)"
    then have "WriteKeychainToken kc1 ?t ''claude-code'' tok = (Some err, kc2)"
      by (simp add: RestoreKeychainToken_def b)
    then show "entries kc2 = entries kc1"
      unfolding WriteKeychainToken_eq by (auto simp: runSecurity_entries split: if_splits)
  }
next
  show "RestoreKeychainToken kc None = (None, kc)" by (simp add: RestoreKeychainToken_def)
qed

lemma swapKeychain_names:
  "KeychainServiceName Sum256 (Some ''/Users/u'') ''~/.claude'' = keychainServiceBase"
  "KeychainServiceName Sum256 (Some ''/Users/u'') ''~/work''
     = keychainServiceBase @ ''-'' @ hexBytes (take 4 (Sum256 ''/Users/u/work''))"
  by (simp_all add: KeychainServiceName_eq expandTilde_def HasPrefix_def defaultPath_def
      defaultClaudeConfigDir_def)

lemma trim_examples:
  "TrimSpace '' tok'' = ''tok''" "TrimSpace ''fresh'' = ''fresh''" "TrimSpace ''tok'' = ''tok''"
  by code_simp+

lemma swapKeychain_lookup:
  "entries (swapKeychain Sum256 secret) keychainServiceBase = Some secret"
  "entries (swapKeychain Sum256 secret)
     (keychainServiceBase @ CHR ''-'' # hexBytes (take 4 (Sum256 ''/Users/u/work''))) = Some ''fresh''"
  "failing (swapKeychain Sum256 secret) = []"
  by (simp_all add: swapKeychain_def swapKeychain_names)

lemma swap_example:
  "SwapKeychainCredential Sum256 (Some ''/Users/u'')
       ((swapKeychain Sum256 secret)\<lparr>failing := [False, False, False] @ later\<rparr>) ''~/.claude'' ''~/work''
     = (Inr \<lparr>ServiceName = keychainServiceBase, Token = TrimSpace secret\<rparr>,
        (swapKeychain Sum256 secret)
          \<lparr>entries := (entries (swapKeychain Sum256 secret))(keychainServiceBase \<mapsto> ''fresh''),
           failing := later\<rparr>)"
  by (simp add: SwapKeychainCredential_def ReadKeychainToken_eq WriteKeychainToken_eq runSecurity_def
      swapKeychain_names swapKeychain_lookup trim_examples Let_def)

theorem swap_then_restore_witness:
  "\<forall>Sum256.
     fst (ReadKeychainToken ((swapKeychain Sum256 '' tok'')\<lparr>failing := [False, False, False, False]\<rparr>)
            keychainServiceBase) = Inr ''tok''
     \<and> SwapKeychainCredential Sum256 (Some ''/Users/u'')
           ((swapKeychain Sum256 '' tok'')\<lparr>failing := [False, False, False, False]\<rparr>)
           ''~/.claude'' ''~/work''
         = (Inr \<lparr>ServiceName = keychainServiceBase, Token = ''tok''\<rparr>,
            (swapKeychain Sum256 '' tok'')
              \<lparr>entries := (entries (swapKeychain Sum256 '' tok''))(keychainServiceBase \<mapsto> ''fresh''),
               failing := [False]\<rparr>)
     \<and> RestoreKeychainToken
           ((swapKeychain Sum256 '' tok'')
              \<lparr>entries := (entries (swapKeychain Sum256 '' tok''))(keychainServiceBase \<mapsto> ''fresh''),
               failing := [False]\<rparr>)
           (Some \<lparr>ServiceName = keychainServiceBase, Token = ''tok''\<rparr>)
         = (None, (swapKeychain Sum256 '' tok'')
                    \<lparr>entries := (entries (swapKeychain Sum256 '' tok''))(keychainServiceBase \<mapsto> ''tok''),
                     failing := []\<rparr>)
     \<and> fst (ReadKeychainToken
              ((swapKeychain Sum256 '' tok'')
                 \<lparr>entries := (entries (swapKeychain Sum256 '' tok''))(keychainServiceBase \<mapsto> ''tok''),
                  failing := []\<rparr>)
              keychainServiceBase) = Inr ''tok''
     \<and> RestoreKeychainToken
           ((swapKeychain Sum256 '' tok'')
              \<lparr>entries := (entries (swapKeychain Sum256 '' tok''))(keychainServiceBase \<mapsto> ''fresh''),
               failing := [True]\<rparr>)
           (Some \<lparr>ServiceName = keychainServiceBase, Token = ''tok''\<rparr>)
         = (Some (CredentialWriteFailure keychainServiceBase),
            (swapKeychain Sum256 '' tok'')
              \<lparr>entries := (entries (swapKeychain Sum256 '' tok''))(keychainServiceBase \<mapsto> ''fresh''),
               failing := []\<rparr>)"
proof
  fix Sum256 :: "string \<Rightarrow> 8 word list"
  let ?kc = "(swapKeychain Sum256 '' tok'')\<lparr>failing := [False, False, False, False]\<rparr>"
  let ?b = "\<lparr>ServiceName = keychainServiceBase, Token = ''tok''\<rparr>"
  let ?kc1 = "(swapKeychain Sum256 '' tok'')
      \<lparr>entries := (entries (swapKeychain Sum256 '' tok''))(keychainServiceBase \<mapsto> ''fresh''),
       failing := [False]\<rparr>"
  let ?kc2 = "(swapKeychain Sum256 '' tok'')
      \<lparr>entries := (entries (swapKeychain Sum256 '' tok''))(keychainServiceBase \<mapsto> ''tok''),
       failing := []\<rparr>"
  let ?kc1' = "(swapKeychain Sum256 '' tok'')
      \<lparr>entries := (entries (swapKeychain Sum256 '' tok''))(keychainServiceBase \<mapsto> ''fresh''),
       failing := [True]\<rparr>"
  let ?kc3 = "(swapKeychain Sum256 '' tok'')
      \<lparr>entries := (entries (swapKeychain Sum256 '' tok''))(keychainServiceBase \<mapsto> ''fresh''),
       failing := []\<rparr>"
  have n: "KeychainServiceName Sum256 (Some ''/Users/u'') ''~/.claude'' = keychainServiceBase"
    by (rule swapKeychain_names(1))
  have s: "SwapKeychainCredential Sum256 (Some ''/Users/u'') ?kc ''~/.claude'' ''~/work'' = (Inr ?b, ?kc1)"
    using swap_example [of Sum256 "[False]" "'' tok''"] by (simp add: trim_examples)
  have r: "RestoreKeychainToken ?kc1 (Some ?b) = (None, ?kc2)"
    by (simp add: RestoreKeychainToken_def WriteKeychainToken_eq runSecurity_def)
  have r': "RestoreKeychainToken ?kc1' (Some ?b)
              = (Some (CredentialWriteFailure keychainServiceBase), ?kc3)"
    by (simp add: RestoreKeychainToken_def WriteKeychainToken_eq runSecurity_def)
  have k: "entries ?kc2 = entries ?kc2 \<and> \<not> fst (runSecurity ?kc2)"
    by (simp add: runSecurity_def)
  note t = swap_then_restore [of Sum256 "Some ''/Users/u''" ?kc "''~/.claude''" "''~/work''",
      THEN conjunct1, rule_format, OF s, unfolded n]
  have before: "fst (ReadKeychainToken ?kc keychainServiceBase) = Inr ''tok''"
    using t by simp
  have after: "fst (ReadKeychainToken ?kc2 keychainServiceBase)
                 = fst (ReadKeychainToken ?kc keychainServiceBase)"
    using t [THEN conjunct2, THEN conjunct2, THEN conjunct2, THEN conjunct1, rule_format, OF r,
        THEN conjunct2, rule_format, OF k] .
  show "fst (ReadKeychainToken ?kc keychainServiceBase) = Inr ''tok''
     \<and> SwapKeychainCredential Sum256 (Some ''/Users/u'') ?kc ''~/.claude'' ''~/work'' = (Inr ?b, ?kc1)
     \<and> RestoreKeychainToken ?kc1 (Some ?b) = (None, ?kc2)
     \<and> fst (ReadKeychainToken ?kc2 keychainServiceBase) = Inr ''tok''
     \<and> RestoreKeychainToken ?kc1' (Some ?b)
         = (Some (CredentialWriteFailure keychainServiceBase), ?kc3)"
    using before after s r r' by simp
qed

section \<open>ValidateKeychainToken\<close>

lemma validate_after_read:
  assumes "fst (ReadKeychainToken kc (KeychainServiceName Sum256 home configDir)) = Inr raw"
    "raw \<noteq> []"
  shows "ValidateKeychainToken d Sum256 home kc now configDir =
           (case credentialExpiry d raw of
              Some expiresAt \<Rightarrow> checkExpiry now expiresAt
            | None \<Rightarrow> (case jwtExpiry d raw of
                         Some exp \<Rightarrow> checkExpiry now exp
                       | None \<Rightarrow> validateTokenHTTP d raw))"
  using assms by (simp add: ValidateKeychainToken_def)

lemma credentialExpiry_None:
  assumes "\<forall>x. jsonInt64Field d ''expires_at'' raw = Present x \<longrightarrow> x \<le> 0"
  shows "credentialExpiry d raw = None"
  using assms by (cases "jsonInt64Field d ''expires_at'' raw")
    (auto simp: credentialExpiry_def unmarshalInt64_def)

lemma jwtExpiry_None:
  assumes "\<forall>header body signature payload x.
             Split raw CHR ''.'' = [header, body, signature]
             \<and> base64RawURLDecode d body = Some payload
             \<and> jsonInt64Field d ''exp'' payload = Present x \<longrightarrow> x \<le> 0"
  shows "jwtExpiry d raw = None"
proof (rule ccontr)
  assume "jwtExpiry d raw \<noteq> None"
  then obtain e where e: "jwtExpiry d raw = Some e" by auto
  then obtain header body signature where s: "Split raw CHR ''.'' = [header, body, signature]"
    unfolding jwtExpiry_def by (auto split: list.splits)
  obtain payload where p: "base64RawURLDecode d body = Some payload"
    using e s unfolding jwtExpiry_def by (auto split: option.splits)
  have u: "unmarshalInt64 d ''exp'' payload = Some e" "0 < e"
    using e s p unfolding jwtExpiry_def by (auto split: option.splits if_splits)
  show False
  proof (cases "jsonInt64Field d ''exp'' payload")
    case Undecodable
    then show False using u by (simp add: unmarshalInt64_def)
  next
    case Absent
    then show False using u by (simp add: unmarshalInt64_def)
  next
    case (Present x)
    then have "x = e" using u by (simp add: unmarshalInt64_def)
    then show False using assms s p Present u(2) by fastforce
  qed
qed

text \<open>
  C9, as the code has it. The secret read from the keychain being \<open>raw\<close>, not empty: when
  \<open>raw\<close> decodes as a JSON credential whose \<open>expires_at\<close> is a positive integer, or when it
  does not and is a token of three segments whose payload decodes to a positive integer
  \<open>exp\<close>, \<open>ValidateKeychainToken\<close> sends no request; it returns no error when the expiry
  is after \<open>now\<close>, and the error of the expired token when the expiry is \<open>now\<close> or
  earlier. An expiry that is zero or negative, or that does not decode into the integer
  field (a number with a fraction or an exponent, a string), is no expiry for the code:
  when neither encoding gives a positive integer, the result is that of
  \<open>validateTokenHTTP\<close>, which sends one request unless the secret cannot stand in a
  header, and returns an error for the status 401 only. So the credential
  \<^verbatim>\<open>{"expires_at":0}\<close>, whose expiry is long past, is sent to the remote service, and the
  result is what the service answers; that is the counterexample.
\<close>

theorem ValidateKeychainToken_expiry:
  assumes "fst (ReadKeychainToken kc (KeychainServiceName Sum256 home configDir)) = Inr raw"
    "raw \<noteq> []"
  shows "(\<forall>e. jsonInt64Field d ''expires_at'' raw = Present e \<and> 0 < e \<longrightarrow>
            ValidateKeychainToken d Sum256 home kc now configDir
              = (if e \<le> now then Some (Expired e) else None, 0))
       \<and> (\<forall>e header body signature payload.
            (\<forall>x. jsonInt64Field d ''expires_at'' raw = Present x \<longrightarrow> x \<le> 0)
            \<and> Split raw CHR ''.'' = [header, body, signature]
            \<and> base64RawURLDecode d body = Some payload
            \<and> jsonInt64Field d ''exp'' payload = Present e \<and> 0 < e \<longrightarrow>
            ValidateKeychainToken d Sum256 home kc now configDir
              = (if e \<le> now then Some (Expired e) else None, 0))
       \<and> ((\<forall>x. jsonInt64Field d ''expires_at'' raw = Present x \<longrightarrow> x \<le> 0)
            \<and> (\<forall>header body signature payload x.
                  Split raw CHR ''.'' = [header, body, signature]
                  \<and> base64RawURLDecode d body = Some payload
                  \<and> jsonInt64Field d ''exp'' payload = Present x \<longrightarrow> x \<le> 0) \<longrightarrow>
            ValidateKeychainToken d Sum256 home kc now configDir = validateTokenHTTP d raw)
       \<and> snd (validateTokenHTTP d raw) = (if validHeaderFieldValue (''Bearer '' @ raw) then 1 else 0)
       \<and> fst (validateTokenHTTP d raw)
           = (if validHeaderFieldValue (''Bearer '' @ raw) \<and> httpPostStatus d raw = Some 401
              then Some Rejected else None)"
proof (intro conjI allI impI)
  fix e
  assume "jsonInt64Field d ''expires_at'' raw = Present e \<and> 0 < e"
  then have "credentialExpiry d raw = Some e"
    by (simp add: credentialExpiry_def unmarshalInt64_def)
  then show "ValidateKeychainToken d Sum256 home kc now configDir
              = (if e \<le> now then Some (Expired e) else None, 0)"
    by (simp add: validate_after_read [OF assms] checkExpiry_def)
next
  fix e header body signature payload
  assume a: "(\<forall>x. jsonInt64Field d ''expires_at'' raw = Present x \<longrightarrow> x \<le> 0)
            \<and> Split raw CHR ''.'' = [header, body, signature]
            \<and> base64RawURLDecode d body = Some payload
            \<and> jsonInt64Field d ''exp'' payload = Present e \<and> 0 < e"
  have c: "credentialExpiry d raw = None"
    using a credentialExpiry_None by blast
  have j: "jwtExpiry d raw = Some e"
    using a by (simp add: jwtExpiry_def unmarshalInt64_def)
  show "ValidateKeychainToken d Sum256 home kc now configDir
              = (if e \<le> now then Some (Expired e) else None, 0)"
    by (simp add: validate_after_read [OF assms] c j checkExpiry_def)
next
  assume a: "(\<forall>x. jsonInt64Field d ''expires_at'' raw = Present x \<longrightarrow> x \<le> 0)
            \<and> (\<forall>header body signature payload x.
                  Split raw CHR ''.'' = [header, body, signature]
                  \<and> base64RawURLDecode d body = Some payload
                  \<and> jsonInt64Field d ''exp'' payload = Present x \<longrightarrow> x \<le> 0)"
  have c: "credentialExpiry d raw = None"
    using a credentialExpiry_None by blast
  have j: "jwtExpiry d raw = None"
    using a jwtExpiry_None by blast
  show "ValidateKeychainToken d Sum256 home kc now configDir = validateTokenHTTP d raw"
    by (simp add: validate_after_read [OF assms] c j)
next
  show "snd (validateTokenHTTP d raw) = (if validHeaderFieldValue (''Bearer '' @ raw) then 1 else 0)"
    by (simp add: validateTokenHTTP_def split: option.splits)
next
  show "fst (validateTokenHTTP d raw)
           = (if validHeaderFieldValue (''Bearer '' @ raw) \<and> httpPostStatus d raw = Some 401
              then Some Rejected else None)"
    by (simp add: validateTokenHTTP_def split: option.splits)
qed

lemma token_examples:
  "TrimSpace jsonCredential = jsonCredential"
  "TrimSpace jwtToken = jwtToken"
  "TrimSpace epochCredential = epochCredential"
  "TrimSpace fractionalCredential = fractionalCredential"
  "TrimSpace twoLines = twoLines"
  "Split jwtToken CHR ''.'' = [''eyJhbGciOiJub25lIn0'', ''eyJleHAiOjE3NzE0NTkyMDB9'', ''c2ln'']"
  "Split epochCredential CHR ''.'' = [epochCredential]"
  "Split fractionalCredential CHR ''.'' = [''{\"expires_at\":1771459200'', ''5}'']"
  "Split twoLines CHR ''.'' = [twoLines]"
  "jsonCredential \<noteq> []" "jwtToken \<noteq> []" "epochCredential \<noteq> []" "fractionalCredential \<noteq> []"
  "twoLines \<noteq> []"
  "jwtToken \<noteq> jsonCredential" "jwtToken \<noteq> epochCredential" "epochCredential \<noteq> jsonCredential"
  "fractionalCredential \<noteq> jsonCredential" "fractionalCredential \<noteq> epochCredential"
  "twoLines \<noteq> jsonCredential" "twoLines \<noteq> epochCredential"
  by code_simp+

lemma header_examples:
  "validHeaderFieldValue (CHR ''B'' # CHR ''e'' # CHR ''a'' # CHR ''r'' # CHR ''e'' # CHR ''r'' # CHR '' '' # epochCredential)"
  "validHeaderFieldValue (CHR ''B'' # CHR ''e'' # CHR ''a'' # CHR ''r'' # CHR ''e'' # CHR ''r'' # CHR '' '' # fractionalCredential)"
  "\<not> validHeaderFieldValue (CHR ''B'' # CHR ''e'' # CHR ''a'' # CHR ''r'' # CHR ''e'' # CHR ''r'' # CHR '' '' # twoLines)"
  by code_simp+

lemma read_default:
  "fst (ReadKeychainToken (swapKeychain Sum256 secret)
          (KeychainServiceName Sum256 (Some ''/Users/u'') ''~/.claude''))
     = Inr (TrimSpace secret)"
  by (simp add: ReadKeychainToken_eq runSecurity_def swapKeychain_names swapKeychain_lookup)

theorem ValidateKeychainToken_expiry_counterexample:
  "\<forall>Sum256 answer.
     fst (ReadKeychainToken (swapKeychain Sum256 epochCredential)
         (KeychainServiceName Sum256 (Some ''/Users/u'') ''~/.claude'')) = Inr epochCredential
     \<and> jsonInt64Field (testDecoders answer) ''expires_at'' epochCredential = Present 0
     \<and> ValidateKeychainToken (testDecoders answer) Sum256 (Some ''/Users/u'')
           (swapKeychain Sum256 epochCredential) 1771455600 ''~/.claude''
         = (if answer = Some 401 then Some Rejected else None, 1)"
  by (auto simp: ValidateKeychainToken_def read_default token_examples credentialExpiry_def
      jwtExpiry_def unmarshalInt64_def validateTokenHTTP_def testDecoders_def header_examples
      split: option.splits)

theorem ValidateKeychainToken_expiry_witness:
  "\<forall>Sum256 answer.
     ValidateKeychainToken (testDecoders answer) Sum256 (Some ''/Users/u'')
         (swapKeychain Sum256 jsonCredential) 1771455600 ''~/.claude'' = (None, 0)
     \<and> ValidateKeychainToken (testDecoders answer) Sum256 (Some ''/Users/u'')
         (swapKeychain Sum256 jsonCredential) 1771462800 ''~/.claude''
           = (Some (Expired 1771459200), 0)
     \<and> ValidateKeychainToken (testDecoders answer) Sum256 (Some ''/Users/u'')
         (swapKeychain Sum256 jwtToken) 1771455600 ''~/.claude'' = (None, 0)
     \<and> ValidateKeychainToken (testDecoders answer) Sum256 (Some ''/Users/u'')
         (swapKeychain Sum256 jwtToken) 1771462800 ''~/.claude''
           = (Some (Expired 1771459200), 0)
     \<and> ValidateKeychainToken (testDecoders (Some 401)) Sum256 (Some ''/Users/u'')
         (swapKeychain Sum256 fractionalCredential) 1771462800 ''~/.claude''
           = (Some Rejected, 1)
     \<and> ValidateKeychainToken (testDecoders (Some 400)) Sum256 (Some ''/Users/u'')
         (swapKeychain Sum256 fractionalCredential) 1771462800 ''~/.claude''
           = (None, 1)
     \<and> ValidateKeychainToken (testDecoders (Some 401)) Sum256 (Some ''/Users/u'')
         (swapKeychain Sum256 twoLines) 1771462800 ''~/.claude''
           = (None, 0)"
proof (intro allI)
  fix Sum256 :: "string \<Rightarrow> 8 word list" and answer :: "nat option"
  let ?d = "testDecoders answer"
  have rj: "fst (ReadKeychainToken (swapKeychain Sum256 jsonCredential)
              (KeychainServiceName Sum256 (Some ''/Users/u'') ''~/.claude'')) = Inr jsonCredential"
    by (simp add: read_default token_examples)
  have rt: "fst (ReadKeychainToken (swapKeychain Sum256 jwtToken)
              (KeychainServiceName Sum256 (Some ''/Users/u'') ''~/.claude'')) = Inr jwtToken"
    by (simp add: read_default token_examples)
  have rf: "fst (ReadKeychainToken (swapKeychain Sum256 fractionalCredential)
              (KeychainServiceName Sum256 (Some ''/Users/u'') ''~/.claude'')) = Inr fractionalCredential"
    by (simp add: read_default token_examples)
  have rl: "fst (ReadKeychainToken (swapKeychain Sum256 twoLines)
              (KeychainServiceName Sum256 (Some ''/Users/u'') ''~/.claude'')) = Inr twoLines"
    by (simp add: read_default token_examples)
  have fj: "jsonInt64Field ?d ''expires_at'' jsonCredential = Present 1771459200 \<and> (0::int) < 1771459200"
    by (simp add: testDecoders_def)
  have ft: "(\<forall>x. jsonInt64Field ?d ''expires_at'' jwtToken = Present x \<longrightarrow> x \<le> 0)
            \<and> Split jwtToken CHR ''.'' = [''eyJhbGciOiJub25lIn0'', ''eyJleHAiOjE3NzE0NTkyMDB9'', ''c2ln'']
            \<and> base64RawURLDecode ?d ''eyJleHAiOjE3NzE0NTkyMDB9'' = Some jwtPayload
            \<and> jsonInt64Field ?d ''exp'' jwtPayload = Present 1771459200 \<and> (0::int) < 1771459200"
    by (simp add: testDecoders_def token_examples)
  have ff: "\<And>a. (\<forall>x. jsonInt64Field (testDecoders a) ''expires_at'' fractionalCredential = Present x \<longrightarrow> x \<le> 0)
            \<and> (\<forall>header body signature payload x.
                  Split fractionalCredential CHR ''.'' = [header, body, signature]
                  \<and> base64RawURLDecode (testDecoders a) body = Some payload
                  \<and> jsonInt64Field (testDecoders a) ''exp'' payload = Present x \<longrightarrow> x \<le> 0)"
    by (simp add: testDecoders_def token_examples)
  have fl: "\<And>a. (\<forall>x. jsonInt64Field (testDecoders a) ''expires_at'' twoLines = Present x \<longrightarrow> x \<le> 0)
            \<and> (\<forall>header body signature payload x.
                  Split twoLines CHR ''.'' = [header, body, signature]
                  \<and> base64RawURLDecode (testDecoders a) body = Some payload
                  \<and> jsonInt64Field (testDecoders a) ''exp'' payload = Present x \<longrightarrow> x \<le> 0)"
    by (simp add: testDecoders_def token_examples)
  note j = ValidateKeychainToken_expiry [OF rj token_examples(10), of ?d, THEN conjunct1, rule_format, OF fj]
  note t = ValidateKeychainToken_expiry [OF rt token_examples(11), of ?d,
      THEN conjunct2, THEN conjunct1, rule_format, OF ft]
  note f = ValidateKeychainToken_expiry [OF rf token_examples(13),
      THEN conjunct2, THEN conjunct2, THEN conjunct1, rule_format, OF ff]
  note l = ValidateKeychainToken_expiry [OF rl token_examples(14),
      THEN conjunct2, THEN conjunct2, THEN conjunct1, rule_format, OF fl]
  have h: "\<And>a. validateTokenHTTP (testDecoders (Some a)) fractionalCredential
             = (if a = 401 then Some Rejected else None, 1)"
    "\<And>a. validateTokenHTTP (testDecoders a) twoLines = (None, 0)"
    by (simp_all add: validateTokenHTTP_def token_examples header_examples testDecoders_def)
  show "ValidateKeychainToken ?d Sum256 (Some ''/Users/u'')
         (swapKeychain Sum256 jsonCredential) 1771455600 ''~/.claude'' = (None, 0)
     \<and> ValidateKeychainToken ?d Sum256 (Some ''/Users/u'')
         (swapKeychain Sum256 jsonCredential) 1771462800 ''~/.claude''
           = (Some (Expired 1771459200), 0)
     \<and> ValidateKeychainToken ?d Sum256 (Some ''/Users/u'')
         (swapKeychain Sum256 jwtToken) 1771455600 ''~/.claude'' = (None, 0)
     \<and> ValidateKeychainToken ?d Sum256 (Some ''/Users/u'')
         (swapKeychain Sum256 jwtToken) 1771462800 ''~/.claude''
           = (Some (Expired 1771459200), 0)
     \<and> ValidateKeychainToken (testDecoders (Some 401)) Sum256 (Some ''/Users/u'')
         (swapKeychain Sum256 fractionalCredential) 1771462800 ''~/.claude''
           = (Some Rejected, 1)
     \<and> ValidateKeychainToken (testDecoders (Some 400)) Sum256 (Some ''/Users/u'')
         (swapKeychain Sum256 fractionalCredential) 1771462800 ''~/.claude''
           = (None, 1)
     \<and> ValidateKeychainToken (testDecoders (Some 401)) Sum256 (Some ''/Users/u'')
         (swapKeychain Sum256 twoLines) 1771462800 ''~/.claude''
           = (None, 0)"
    using j [of 1771455600] j [of 1771462800] t [of 1771455600] t [of 1771462800]
      f [of "Some 401" 1771462800] f [of "Some 400" 1771462800] l [of "Some 401" 1771462800] h
    by simp
qed

end
